theory Spec2Isabelle
  imports Main "HOL-Library.Word"
begin

section \<open>Data model of the buffer manager\<close>

text \<open>
  The C source stores every counter and page number in an \<open>int\<close>; they are 32-bit words
  here, so \<open>x + 1\<close> and \<open>x - 1\<close> wrap around as the machine does, and \<open><s\<close> is the signed
  comparison of C.
\<close>

type_synonym int32 = "32 word"

text \<open>
  Modelled from the spec: the headers dberror.h, buffer_mgr.h and storage_mgr.h are not among
  the sources. The return codes are the four the source names, with every other code of the
  header as \<open>RC_OTHER\<close>; the replacement strategies are the three the source dispatches on,
  with every other value of the enum as \<open>RS_OTHER\<close>; \<open>NO_PAGE\<close> is \<open>-1\<close> (section 6 of the
  spec, and \<open>createPageFrame\<close> writes \<open>-1\<close>).
\<close>

datatype RC =
    RC_OK
  | RC_FILE_NOT_FOUND
  | RC_WRITE_FAILED
  | RC_READ_NON_EXISTING_PAGE
  | RC_OTHER int32

datatype ReplacementStrategy = RS_FIFO | RS_LRU | RS_CLOCK | RS_OTHER

definition NO_PAGE :: int32 where
  "NO_PAGE = - 1"

text \<open>
  A frame of the pool. The fields \<open>next\<close> and \<open>prev\<close> of the C struct are not stored:
  \<open>createPageFrame\<close> links the frames into a ring in creation order and no other function
  assigns a link, so a pointer to a frame is the frame's position in the list of frames,
  \<open>p->next\<close> is \<open>nxt\<close> and \<open>p->prev\<close> is \<open>prv\<close> below. The buffer \<open>data\<close> is the
  string of the bytes it holds.
\<close>

record PageFrame =
  frameNum :: int32
  pageNum :: int32
  dirtyFlagSignal :: int32
  fixCount :: int32
  referenceBit :: int32
  data :: string

text \<open>
  The management record. \<open>frames\<close> is the heap of frames in creation order; \<open>head\<close>,
  \<open>tail\<close> and \<open>start\<close> are pointers into it. The three statistics arrays of the C struct
  are output buffers of the statistics functions and are returned by them here;
  \<open>replacementData\<close> is stored by \<open>initBufferPool\<close> and never read.
\<close>

record BM_BufferPool_Mgmt =
  occupiedFrameCount :: int32
  frames :: "PageFrame list"
  head :: nat
  tail :: nat
  start :: nat
  getNumReadIO :: int32
  getNumWriteIO :: int32

text \<open>
  Modelled from the spec: \<open>BM_BufferPool\<close> and \<open>BM_PageHandle\<close> are declared in
  buffer_mgr.h. \<open>mgmtData\<close> is \<open>None\<close> for the null pointer. The \<open>data\<close> pointer of a
  page handle points to the buffer of a frame: \<open>h_data\<close> is the position of that frame,
  \<open>None\<close> while it points to no buffer.
\<close>

record BM_BufferPool =
  pageFile :: "string option"
  numPages :: int32
  strategy :: ReplacementStrategy
  mgmtData :: "BM_BufferPool_Mgmt option"

record BM_PageHandle =
  h_pageNum :: int32
  h_data :: "nat option"

text \<open>
  The storage manager is an external collaborator (storage_mgr.c is not among the sources), so
  it is a parameter of every operation: \<open>'w\<close> is the state of the world it acts on (the page
  file and the file handle), and each of its five functions returns its return code and the
  new world. \<open>readBlock\<close> takes the buffer it is given and returns the buffer it leaves.
\<close>

record 'w storage_mgr =
  openPageFile :: "string option \<Rightarrow> 'w \<Rightarrow> RC \<times> 'w"
  closePageFile :: "'w \<Rightarrow> RC \<times> 'w"
  readBlock :: "int32 \<Rightarrow> string \<Rightarrow> 'w \<Rightarrow> RC \<times> string \<times> 'w"
  writeBlock :: "int32 \<Rightarrow> string \<Rightarrow> 'w \<Rightarrow> RC \<times> 'w"
  ensureCapacity :: "int32 \<Rightarrow> 'w \<Rightarrow> RC \<times> 'w"

subsection \<open>The ring of frames\<close>

definition nxt :: "PageFrame list \<Rightarrow> nat \<Rightarrow> nat" where
  "nxt fs i = (i + 1) mod length fs"

definition prv :: "PageFrame list \<Rightarrow> nat \<Rightarrow> nat" where
  "prv fs i = (i + length fs - 1) mod length fs"

text \<open>
  The pointers of a pool are valid when they point into the ring. Every operation but
  \<open>initBufferPool\<close> dereferences \<open>mgmtData\<close> and \<open>head\<close> unchecked: on a null
  \<open>mgmtData\<close> or a pointer outside the ring the C program has no defined result, and the
  model returns \<open>None\<close>.
\<close>

definition valid_ring :: "BM_BufferPool_Mgmt \<Rightarrow> bool" where
  "valid_ring m \<longleftrightarrow>
     head m < length (frames m) \<and> tail m < length (frames m) \<and> start m < length (frames m)"

text \<open>Steps from frame \<open>i\<close> forward to frame \<open>h\<close>, a whole turn when \<open>i = h\<close>.\<close>

definition ring_dist :: "nat \<Rightarrow> nat \<Rightarrow> nat \<Rightarrow> nat" where
  "ring_dist n h i = (if i < h then h - i else h + n - i)"

section \<open>Creating a pool\<close>

text \<open>
  \<open>createPageFrame\<close> appends one empty frame to the ring; \<open>head\<close> is reset to \<open>start\<close>
  and \<open>tail\<close> is the new frame. \<open>PAGE_SIZE\<close> (dberror.h) is a parameter. The test
  \<open>head == NULL\<close> of the C function is the test that no frame exists yet: the management
  record comes from \<open>malloc\<close> and its \<open>start\<close> pointer is read before it is ever
  assigned, so the code relies on it being null then, and so does the model.
\<close>

definition newFrame :: "nat \<Rightarrow> PageFrame" where
  "newFrame PAGE_SIZE =
     \<lparr>frameNum = 0, pageNum = - 1, dirtyFlagSignal = 0, fixCount = 0, referenceBit = 0,
      data = replicate PAGE_SIZE (CHR 0x00)\<rparr>"

definition createPageFrame :: "nat \<Rightarrow> BM_BufferPool_Mgmt \<Rightarrow> BM_BufferPool_Mgmt" where
  "createPageFrame PAGE_SIZE m =
     (if frames m = []
      then m\<lparr>frames := [newFrame PAGE_SIZE], head := 0, tail := 0, start := 0\<rparr>
      else m\<lparr>frames := frames m @ [newFrame PAGE_SIZE], head := start m,
             tail := length (frames m)\<rparr>)"

fun createFrames :: "nat \<Rightarrow> nat \<Rightarrow> BM_BufferPool_Mgmt \<Rightarrow> BM_BufferPool_Mgmt" where
  "createFrames PAGE_SIZE 0 m = m"
| "createFrames PAGE_SIZE (Suc n) m = createFrames PAGE_SIZE n (createPageFrame PAGE_SIZE m)"

text \<open>
  \<open>initBufferPool\<close>: the management record starts with no frame; the loop
  \<open>for (i = 0; i < numPages; i++)\<close> runs \<open>nat (sint numPages)\<close> times.
\<close>

definition initBufferPool ::
  "'w storage_mgr \<Rightarrow> nat \<Rightarrow> BM_BufferPool \<Rightarrow> string \<Rightarrow> int32 \<Rightarrow> ReplacementStrategy \<Rightarrow> 'w
     \<Rightarrow> RC \<times> BM_BufferPool \<times> 'w" where
  "initBufferPool sm PAGE_SIZE bm pageFileName n strat w =
     (let (status, w1) = openPageFile sm (Some pageFileName) w in
      if status \<noteq> RC_OK then (status, bm, w1)
      else
        let m0 = \<lparr>occupiedFrameCount = 0, frames = [], head = 0, tail = 0, start = 0,
                  getNumReadIO = 0, getNumWriteIO = 0\<rparr>;
            m1 = createFrames PAGE_SIZE (nat (sint n)) m0;
            m2 = m1\<lparr>tail := head m1, occupiedFrameCount := 0, getNumReadIO := 0,
                    getNumWriteIO := 0\<rparr>;
            bm' = bm\<lparr>numPages := n, pageFile := Some pageFileName, strategy := strat,
                     mgmtData := Some m2\<rparr>
        in (RC_OK, bm', snd (closePageFile sm w1)))"

section \<open>Looking a page up\<close>

text \<open>
  The loop \<open>do { if (frame->pageNum == pageNum) ...; frame = frame->next; }
  while (frame != head)\<close> of \<open>markDirty\<close>, \<open>unpinPage\<close> and the three pin routines,
  started at \<open>frame = head\<close>: the first frame from \<open>head\<close> on that holds the page.
\<close>

function findPage :: "PageFrame list \<Rightarrow> nat \<Rightarrow> int32 \<Rightarrow> nat \<Rightarrow> nat option" where
  "findPage fs h pn i =
     (if h < length fs \<and> i < length fs then
        (if pageNum (fs ! i) = pn then Some i
         else if nxt fs i \<noteq> h then findPage fs h pn (nxt fs i)
         else None)
      else None)"
  by pat_completeness auto
termination
  by (relation "measure (\<lambda>(fs, h, pn, i). ring_dist (length fs) h i)")
     (auto simp: ring_dist_def nxt_def mod_Suc split: if_splits)

declare findPage.simps [simp del]

section \<open>markDirty and unpinPage\<close>

definition markDirty ::
  "BM_BufferPool \<Rightarrow> BM_PageHandle \<Rightarrow> (RC \<times> BM_BufferPool) option" where
  "markDirty bm page =
     (case mgmtData bm of
        None \<Rightarrow> None
      | Some m \<Rightarrow>
          if \<not> valid_ring m then None
          else (case findPage (frames m) (head m) (h_pageNum page) (head m) of
                  Some i \<Rightarrow>
                    Some (RC_OK, bm\<lparr>mgmtData := Some (m\<lparr>frames :=
                      (frames m)[i := (frames m ! i)\<lparr>dirtyFlagSignal := 1\<rparr>]\<rparr>)\<rparr>)
                | None \<Rightarrow> Some (RC_OK, bm)))"

definition unpinPage ::
  "BM_BufferPool \<Rightarrow> BM_PageHandle \<Rightarrow> (RC \<times> BM_BufferPool) option" where
  "unpinPage bm page =
     (case mgmtData bm of
        None \<Rightarrow> None
      | Some m \<Rightarrow>
          if \<not> valid_ring m then None
          else (case findPage (frames m) (head m) (h_pageNum page) (head m) of
                  Some i \<Rightarrow>
                    Some (RC_OK, bm\<lparr>mgmtData := Some (m\<lparr>frames :=
                      (frames m)[i := (frames m ! i)\<lparr>fixCount := fixCount (frames m ! i) - 1\<rparr>]\<rparr>)\<rparr>)
                | None \<Rightarrow> Some (RC_OK, bm)))"

section \<open>forceFlushPool and shutdownBufferPool\<close>

text \<open>
  The loop of \<open>forceFlushPool\<close>, at frame \<open>i\<close>, with \<open>h\<close> the head of the ring: a frame
  with \<open>dirtyFlagSignal == true && fixCount == 0\<close> is written; a failed write closes the
  file and returns \<open>RC_WRITE_FAILED\<close>; the loop leaves when \<open>frame->next\<close> is the head
  again, closes the file and returns \<open>RC_OK\<close>.
\<close>

function flushLoop ::
  "'w storage_mgr \<Rightarrow> nat \<Rightarrow> PageFrame list \<Rightarrow> int32 \<Rightarrow> 'w \<Rightarrow> nat
     \<Rightarrow> RC \<times> PageFrame list \<times> int32 \<times> 'w" where
  "flushLoop sm h fs nw w i =
     (if h < length fs \<and> i < length fs then
        (if dirtyFlagSignal (fs ! i) = 1 \<and> fixCount (fs ! i) = 0 then
           (if fst (writeBlock sm (pageNum (fs ! i)) (data (fs ! i)) w) \<noteq> RC_OK
            then (RC_WRITE_FAILED, fs, nw,
                  snd (closePageFile sm (snd (writeBlock sm (pageNum (fs ! i)) (data (fs ! i)) w))))
            else if nxt fs i \<noteq> h
            then flushLoop sm h (fs[i := (fs ! i)\<lparr>dirtyFlagSignal := 0\<rparr>]) (nw + 1)
                   (snd (writeBlock sm (pageNum (fs ! i)) (data (fs ! i)) w)) (nxt fs i)
            else (RC_OK, fs[i := (fs ! i)\<lparr>dirtyFlagSignal := 0\<rparr>], nw + 1,
                  snd (closePageFile sm (snd (writeBlock sm (pageNum (fs ! i)) (data (fs ! i)) w)))))
         else if nxt fs i \<noteq> h then flushLoop sm h fs nw w (nxt fs i)
         else (RC_OK, fs, nw, snd (closePageFile sm w)))
      else (RC_OK, fs, nw, w))"
  by pat_completeness auto
termination
  by (relation "measure (\<lambda>(sm, h, fs, nw, w, i). ring_dist (length fs) h i)")
     (auto simp: ring_dist_def nxt_def mod_Suc split: if_splits)

declare flushLoop.simps [simp del]

definition forceFlushPool ::
  "'w storage_mgr \<Rightarrow> BM_BufferPool \<Rightarrow> 'w \<Rightarrow> (RC \<times> BM_BufferPool \<times> 'w) option" where
  "forceFlushPool sm bm w =
     (case mgmtData bm of
        None \<Rightarrow> None
      | Some m \<Rightarrow>
          if fst (openPageFile sm (pageFile bm) w) \<noteq> RC_OK
          then Some (RC_FILE_NOT_FOUND, bm, snd (openPageFile sm (pageFile bm) w))
          else if \<not> valid_ring m then None
          else
            (case flushLoop sm (head m) (frames m) (getNumWriteIO m)
                    (snd (openPageFile sm (pageFile bm) w)) (head m) of
               (rc, fs', nw', w') \<Rightarrow>
                 Some (rc, bm\<lparr>mgmtData := Some (m\<lparr>frames := fs', getNumWriteIO := nw'\<rparr>)\<rparr>, w')))"

text \<open>
  \<open>shutdownBufferPool\<close>: \<open>head == NULL\<close> is the pool in which no frame was created.
  Freeing the frames and the management record leaves \<open>mgmtData = NULL\<close>.
\<close>

definition shutdownBufferPool ::
  "'w storage_mgr \<Rightarrow> BM_BufferPool \<Rightarrow> 'w \<Rightarrow> (RC \<times> BM_BufferPool \<times> 'w) option" where
  "shutdownBufferPool sm bm w =
     (case mgmtData bm of
        None \<Rightarrow> None
      | Some m \<Rightarrow>
          if frames m = [] then Some (RC_OK, bm, w)
          else
            (case forceFlushPool sm bm w of
               None \<Rightarrow> None
             | Some (status, bm1, w1) \<Rightarrow>
                 if status \<noteq> RC_OK then Some (status, bm1, w1)
                 else Some (RC_OK, bm1\<lparr>numPages := 0, mgmtData := None, pageFile := None\<rparr>, w1)))"

subsection \<open>What the specification says of forceFlushPool\<close>

text \<open>
  The description of \<open>forceFlushPool\<close> in the specification, to be compared with the loop
  above. A frame is to be flushed when it is occupied, unpinned and dirty. The frames are
  visited once each, in the order of the ring from the head; a frame to be flushed is written,
  its dirty flag cleared and the write counter incremented; the first failed write stops the
  flush with \<open>RC_WRITE_FAILED\<close> and leaves the frames and the counter as they are then.
\<close>

definition ringOrder :: "nat \<Rightarrow> nat \<Rightarrow> nat list" where
  "ringOrder n h = map (\<lambda>k. (h + k) mod n) [0..<n]"

definition flushable :: "PageFrame \<Rightarrow> bool" where
  "flushable f \<longleftrightarrow> pageNum f \<noteq> NO_PAGE \<and> fixCount f = 0 \<and> dirtyFlagSignal f = 1"

fun flushSpec ::
  "'w storage_mgr \<Rightarrow> nat list \<Rightarrow> PageFrame list \<Rightarrow> int32 \<Rightarrow> 'w
     \<Rightarrow> RC \<times> PageFrame list \<times> int32 \<times> 'w" where
  "flushSpec sm [] fs nw w = (RC_OK, fs, nw, w)"
| "flushSpec sm (i # is) fs nw w =
     (if flushable (fs ! i)
      then (case writeBlock sm (pageNum (fs ! i)) (data (fs ! i)) w of
              (rc, w1) \<Rightarrow>
                if rc = RC_OK
                then flushSpec sm is (fs[i := (fs ! i)\<lparr>dirtyFlagSignal := 0\<rparr>]) (nw + 1) w1
                else (RC_WRITE_FAILED, fs, nw, w1))
      else flushSpec sm is fs nw w)"

section \<open>Pinning a page\<close>

text \<open>
  How control leaves the frame-selection part of a pin routine: \<open>Return rc m w\<close> when the
  routine returns \<open>rc\<close> from inside the loop, \<open>Continue m w i\<close> when it goes on to read the
  page into the buffer of \<open>frame = i\<close>.
\<close>

datatype 'w selection =
    Return RC BM_BufferPool_Mgmt 'w
  | Continue BM_BufferPool_Mgmt 'w nat

text \<open>
  The write-back of a victim, the same text in the three routines:
  \<open>if (frame->dirtyFlagSignal == 1) { ensureCapacity(frame->pageNum); if (writeBlock(...)
  != RC_OK) { closePageFile; return RC_WRITE_FAILED; } getNumWriteIO++; }\<close>.
  The result is \<open>Inl\<close> the world after the failed write and the close, or \<open>Inr\<close> the new
  write counter and world.
\<close>

definition writeVictim ::
  "'w storage_mgr \<Rightarrow> BM_BufferPool_Mgmt \<Rightarrow> 'w \<Rightarrow> nat \<Rightarrow> 'w + int32 \<times> 'w" where
  "writeVictim sm m w i =
     (let f = frames m ! i in
      if dirtyFlagSignal f = 1 then
        (let w1 = snd (ensureCapacity sm (pageNum f) w);
             (rc, w2) = writeBlock sm (pageNum f) (data f) w1
         in if rc \<noteq> RC_OK then Inl (snd (closePageFile sm w2))
            else Inr (getNumWriteIO m + 1, w2))
      else Inr (getNumWriteIO m, w))"

text \<open>
  The end of the three routines: \<open>ensureCapacity(pageNum + 1)\<close>, then \<open>readBlock\<close> into
  the buffer of \<open>frame\<close>. \<open>pinPageFIFO\<close> and \<open>pinPageCLOCK\<close> close the file when the read
  fails, \<open>pinPageLRU\<close> does not (\<open>closeOnFail\<close>).
\<close>

definition loadPage ::
  "'w storage_mgr \<Rightarrow> bool \<Rightarrow> int32 \<Rightarrow> BM_BufferPool \<Rightarrow> BM_BufferPool_Mgmt \<Rightarrow> 'w
     \<Rightarrow> BM_PageHandle \<Rightarrow> nat \<Rightarrow> RC \<times> BM_BufferPool \<times> BM_PageHandle \<times> 'w" where
  "loadPage sm closeOnFail pn bm m w page i =
     (let w1 = snd (ensureCapacity sm (pn + 1) w);
          (rc, buf, w2) = readBlock sm pn (data (frames m ! i)) w1;
          m1 = m\<lparr>frames := (frames m)[i := (frames m ! i)\<lparr>data := buf\<rparr>]\<rparr>
      in if rc \<noteq> RC_OK
         then (RC_READ_NON_EXISTING_PAGE, bm\<lparr>mgmtData := Some m1\<rparr>, page,
               if closeOnFail then snd (closePageFile sm w2) else w2)
         else (RC_OK, bm\<lparr>mgmtData := Some (m1\<lparr>getNumReadIO := getNumReadIO m1 + 1\<rparr>)\<rparr>,
               page\<lparr>h_pageNum := pn, h_data := Some i\<rparr>, snd (closePageFile sm w2)))"

text \<open>
  The branch \<open>occupiedFrameCount < numPages\<close>: the page goes into the frame at \<open>head\<close>,
  and \<open>head\<close> moves to the next frame unless the ring has one frame. \<open>pinPageCLOCK\<close> also
  sets the reference bit (\<open>setRef\<close>).
\<close>

definition fillHead :: "bool \<Rightarrow> int32 \<Rightarrow> BM_BufferPool_Mgmt \<Rightarrow> BM_BufferPool_Mgmt" where
  "fillHead setRef pn m =
     (let i = head m; f = frames m ! i;
          f1 = f\<lparr>pageNum := pn\<rparr>;
          f2 = (if setRef then f1\<lparr>referenceBit := 1\<rparr> else f1)
      in m\<lparr>frames := (frames m)[i := f2\<lparr>fixCount := fixCount f + 1\<rparr>],
           head := (if nxt (frames m) i \<noteq> head m then nxt (frames m) i else head m),
           occupiedFrameCount := occupiedFrameCount m + 1\<rparr>)"

subsection \<open>FIFO\<close>

text \<open>
  The replacement loop of \<open>pinPageFIFO\<close>, at \<open>frame = i\<close> (it starts at \<open>tail\<close>): a frame
  in use is passed over, and the loop leaves when \<open>frame\<close> is \<open>head\<close> again; the first frame
  with \<open>fixCount == 0\<close> is written back if dirty and takes the page.
\<close>

function fifoReplace ::
  "'w storage_mgr \<Rightarrow> int32 \<Rightarrow> BM_BufferPool_Mgmt \<Rightarrow> 'w \<Rightarrow> nat \<Rightarrow> 'w selection" where
  "fifoReplace sm pn m w i =
     (if head m < length (frames m) \<and> i < length (frames m) then
        (if fixCount (frames m ! i) \<noteq> 0 then
           (if nxt (frames m) i \<noteq> head m then fifoReplace sm pn m w (nxt (frames m) i)
            else Continue m w (nxt (frames m) i))
         else
           (case writeVictim sm m w i of
              Inl w' \<Rightarrow> Return RC_WRITE_FAILED m w'
            | Inr (nw, w') \<Rightarrow>
                Continue (m\<lparr>getNumWriteIO := nw,
                            frames := (frames m)[i := (frames m ! i)
                              \<lparr>pageNum := pn, fixCount := fixCount (frames m ! i) + 1\<rparr>],
                            tail := nxt (frames m) i,
                            head := i\<rparr>) w' i))
      else Continue m w i)"
  by pat_completeness auto
termination
  by (relation "measure (\<lambda>(sm, pn, m, w, i). ring_dist (length (frames m)) (head m) i)")
     (auto simp: ring_dist_def nxt_def mod_Suc split: if_splits)

declare fifoReplace.simps [simp del]

definition pinPageFIFO ::
  "'w storage_mgr \<Rightarrow> BM_BufferPool \<Rightarrow> BM_PageHandle \<Rightarrow> int32 \<Rightarrow> 'w
     \<Rightarrow> (RC \<times> BM_BufferPool \<times> BM_PageHandle \<times> 'w) option" where
  "pinPageFIFO sm bm page pn w =
     (case mgmtData bm of
        None \<Rightarrow> None
      | Some m \<Rightarrow>
          if \<not> valid_ring m then None
          else Some
            (let w1 = snd (openPageFile sm (pageFile bm) w) in
             case findPage (frames m) (head m) pn (head m) of
               Some i \<Rightarrow>
                 (RC_OK,
                  bm\<lparr>mgmtData := Some (m\<lparr>frames := (frames m)[i := (frames m ! i)
                     \<lparr>pageNum := pn, fixCount := fixCount (frames m ! i) + 1\<rparr>]\<rparr>)\<rparr>,
                  page\<lparr>h_pageNum := pn, h_data := Some i\<rparr>, w1)
             | None \<Rightarrow>
                 (case (if occupiedFrameCount m <s numPages bm
                        then Continue (fillHead False pn m) w1 (head m)
                        else fifoReplace sm pn m w1 (tail m)) of
                    Return rc m' w' \<Rightarrow> (rc, bm\<lparr>mgmtData := Some m'\<rparr>, page, w')
                  | Continue m' w' i \<Rightarrow> loadPage sm True pn bm m' w' page i)))"

subsection \<open>LRU\<close>

text \<open>
  The replacement loop of \<open>pinPageLRU\<close>, at \<open>frame = i\<close> (it starts at \<open>tail\<close>, and
  leaves when \<open>frame\<close> is \<open>tail\<close> again). The first frame with \<open>fixCount == 0\<close> is written
  back if dirty; it takes the page when \<open>tail != head\<close>, and otherwise the frame after it
  takes the page.
\<close>

function lruReplace ::
  "'w storage_mgr \<Rightarrow> int32 \<Rightarrow> BM_BufferPool_Mgmt \<Rightarrow> 'w \<Rightarrow> nat \<Rightarrow> 'w selection" where
  "lruReplace sm pn m w i =
     (if tail m < length (frames m) \<and> i < length (frames m) then
        (if fixCount (frames m ! i) \<noteq> 0 then
           (if nxt (frames m) i \<noteq> tail m then lruReplace sm pn m w (nxt (frames m) i)
            else Continue m w (nxt (frames m) i))
         else
           (case writeVictim sm m w i of
              Inl w' \<Rightarrow> Return RC_WRITE_FAILED m w'
            | Inr (nw, w') \<Rightarrow>
                if tail m \<noteq> head m then
                  Continue (m\<lparr>getNumWriteIO := nw,
                              frames := (frames m)[i := (frames m ! i)
                                \<lparr>pageNum := pn, fixCount := fixCount (frames m ! i) + 1\<rparr>],
                              tail := nxt (frames m) i\<rparr>) w' i
                else
                  (let j = nxt (frames m) i in
                   Continue (m\<lparr>getNumWriteIO := nw,
                               frames := (frames m)[j := (frames m ! j)
                                 \<lparr>pageNum := pn, fixCount := fixCount (frames m ! j) + 1\<rparr>],
                               head := j,
                               tail := prv (frames m) j\<rparr>) w' j)))
      else Continue m w i)"
  by pat_completeness auto
termination
  by (relation "measure (\<lambda>(sm, pn, m, w, i). ring_dist (length (frames m)) (tail m) i)")
     (auto simp: ring_dist_def nxt_def mod_Suc split: if_splits)

declare lruReplace.simps [simp del]

definition pinPageLRU ::
  "'w storage_mgr \<Rightarrow> BM_BufferPool \<Rightarrow> BM_PageHandle \<Rightarrow> int32 \<Rightarrow> 'w
     \<Rightarrow> (RC \<times> BM_BufferPool \<times> BM_PageHandle \<times> 'w) option" where
  "pinPageLRU sm bm page pn w =
     (case mgmtData bm of
        None \<Rightarrow> None
      | Some m \<Rightarrow>
          if \<not> valid_ring m then None
          else Some
            (let w1 = snd (openPageFile sm (pageFile bm) w) in
             case findPage (frames m) (head m) pn (head m) of
               Some i \<Rightarrow>
                 (RC_OK,
                  bm\<lparr>mgmtData := Some (m\<lparr>frames := (frames m)[i := (frames m ! i)
                       \<lparr>pageNum := pn, fixCount := fixCount (frames m ! i) + 1\<rparr>],
                     tail := nxt (frames m) (head m),
                     head := i\<rparr>)\<rparr>,
                  page\<lparr>h_pageNum := pn, h_data := Some i\<rparr>, w1)
             | None \<Rightarrow>
                 (case (if occupiedFrameCount m <s numPages bm
                        then Continue (fillHead False pn m) w1 (head m)
                        else lruReplace sm pn m w1 (tail m)) of
                    Return rc m' w' \<Rightarrow> (rc, bm\<lparr>mgmtData := Some m'\<rparr>, page, w')
                  | Continue m' w' i \<Rightarrow> loadPage sm False pn bm m' w' page i)))"

subsection \<open>CLOCK\<close>

text \<open>
  The inner loop \<open>while (frame->referenceBit != 0) { frame->referenceBit = 0;
  frame = frame->next; }\<close>: it returns the frames and the frame it stops at.
\<close>

function clockSweep :: "PageFrame list \<Rightarrow> nat \<Rightarrow> PageFrame list \<times> nat" where
  "clockSweep fs i =
     (if i < length fs \<and> referenceBit (fs ! i) \<noteq> 0
      then clockSweep (fs[i := (fs ! i)\<lparr>referenceBit := 0\<rparr>]) (nxt fs i)
      else (fs, i))"
  by pat_completeness auto
termination
proof (relation "measure (\<lambda>(fs, i). sum_list (map (\<lambda>f. if referenceBit f \<noteq> 0 then 1 else 0) fs))")
  show "wf (measure (\<lambda>(fs, i). sum_list (map (\<lambda>f. if referenceBit f \<noteq> 0 then 1 else (0::nat)) fs)))"
    by simp
next
  fix fs :: "PageFrame list" and i :: nat
  let ?g = "\<lambda>f. if referenceBit f \<noteq> 0 then 1 else (0::nat)"
  assume a: "i < length fs \<and> referenceBit (fs ! i) \<noteq> 0"
  then have "map ?g (fs[i := (fs ! i)\<lparr>referenceBit := 0\<rparr>]) = (map ?g fs)[i := 0]"
    by (simp add: map_update)
  moreover have "sum_list ((map ?g fs)[i := 0]) = sum_list (map ?g fs) + 0 - (map ?g fs) ! i"
    using a by (subst sum_list_update) simp_all
  moreover have "(map ?g fs) ! i = 1"
    using a by simp
  moreover have "(map ?g fs) ! i \<in> set (map ?g fs)"
    using a by (metis length_map nth_mem)
  then have "(map ?g fs) ! i \<le> sum_list (map ?g fs)"
    by (rule member_le_sum_list) simp
  ultimately show "((fs[i := (fs ! i)\<lparr>referenceBit := 0\<rparr>], nxt fs i), (fs, i))
      \<in> measure (\<lambda>(fs, i). sum_list (map ?g fs))"
    by simp
qed

declare clockSweep.simps [simp del]

text \<open>
  The replacement loop of \<open>pinPageCLOCK\<close>, at \<open>frame = i\<close> (it starts at \<open>head\<close>, and
  leaves when \<open>frame\<close> is \<open>head\<close> again). A frame in use is passed over; from the first
  frame with \<open>fixCount == 0\<close> the inner loop clears reference bits, and the frame it stops
  at is written back if dirty and takes the page.
\<close>

function clockReplace ::
  "'w storage_mgr \<Rightarrow> int32 \<Rightarrow> BM_BufferPool_Mgmt \<Rightarrow> 'w \<Rightarrow> nat \<Rightarrow> 'w selection" where
  "clockReplace sm pn m w i =
     (if head m < length (frames m) \<and> i < length (frames m) then
        (if fixCount (frames m ! i) \<noteq> 0 then
           (if nxt (frames m) i \<noteq> head m then clockReplace sm pn m w (nxt (frames m) i)
            else Continue m w (nxt (frames m) i))
         else
           (let m1 = m\<lparr>frames := fst (clockSweep (frames m) i)\<rparr>;
                j = snd (clockSweep (frames m) i)
            in if referenceBit (frames m1 ! j) = 0 then
                 (case writeVictim sm m1 w j of
                    Inl w' \<Rightarrow> Return RC_WRITE_FAILED m1 w'
                  | Inr (nw, w') \<Rightarrow>
                      Continue (m1\<lparr>getNumWriteIO := nw,
                                   frames := (frames m1)[j := (frames m1 ! j)
                                     \<lparr>referenceBit := 1, pageNum := pn,
                                      fixCount := fixCount (frames m1 ! j) + 1\<rparr>],
                                   head := nxt (frames m1) j\<rparr>) w' j)
               else if j \<noteq> head m1 then clockReplace sm pn m1 w j
               else Continue m1 w j))
      else Continue m w i)"
  by pat_completeness auto
termination
proof -
  have stops: "referenceBit (fst (clockSweep fs i) ! snd (clockSweep fs i)) = 0"
    if "i < length fs" for fs i
    using that
  proof (induction fs i rule: clockSweep.induct)
    case (1 fs i)
    show ?case
    proof (cases "referenceBit (fs ! i) \<noteq> 0")
      case True
      have "nxt fs i < length (fs[i := (fs ! i)\<lparr>referenceBit := 0\<rparr>])"
        using "1.prems" by (cases "length fs = 0") (simp_all add: nxt_def)
      from "1.IH" [OF _ this] True "1.prems" show ?thesis
        by (subst (1 2) clockSweep.simps) simp
    next
      case False
      then show ?thesis
        by (subst (1 2) clockSweep.simps) simp
    qed
  qed
  show ?thesis
  proof (relation "measure (\<lambda>(sm, pn, m, w, i). ring_dist (length (frames m)) (head m) i)",
         goal_cases)
    case 1
    show ?case by simp
  next
    case (2 sm pn m w i)
    then show ?case
      by (auto simp: ring_dist_def nxt_def mod_Suc split: if_splits)
  next
    case (3 sm pn m w i m1 j)
    from 3 have "i < length (frames m)" by simp
    from stops [OF this] 3 show ?case by simp
  qed
qed

declare clockReplace.simps [simp del]

definition pinPageCLOCK ::
  "'w storage_mgr \<Rightarrow> BM_BufferPool \<Rightarrow> BM_PageHandle \<Rightarrow> int32 \<Rightarrow> 'w
     \<Rightarrow> (RC \<times> BM_BufferPool \<times> BM_PageHandle \<times> 'w) option" where
  "pinPageCLOCK sm bm page pn w =
     (case mgmtData bm of
        None \<Rightarrow> None
      | Some m \<Rightarrow>
          if \<not> valid_ring m then None
          else Some
            (let w1 = snd (openPageFile sm (pageFile bm) w) in
             case findPage (frames m) (head m) pn (head m) of
               Some i \<Rightarrow>
                 (RC_OK,
                  bm\<lparr>mgmtData := Some (m\<lparr>frames := (frames m)[i := (frames m ! i)
                     \<lparr>referenceBit := 1, pageNum := pn,
                      fixCount := fixCount (frames m ! i) + 1\<rparr>]\<rparr>)\<rparr>,
                  page\<lparr>h_pageNum := pn, h_data := Some i\<rparr>, w1)
             | None \<Rightarrow>
                 (case (if occupiedFrameCount m <s numPages bm
                        then Continue (fillHead True pn m) w1 (head m)
                        else clockReplace sm pn m w1 (head m)) of
                    Return rc m' w' \<Rightarrow> (rc, bm\<lparr>mgmtData := Some m'\<rparr>, page, w')
                  | Continue m' w' i \<Rightarrow> loadPage sm True pn bm m' w' page i)))"

subsection \<open>The entry point\<close>

text \<open>
  \<open>pinPage\<close> calls the routine of the pool's strategy, drops its return code and returns
  \<open>RC_OK\<close>; the \<open>switch\<close> has no case for another strategy.
\<close>

definition pinPage ::
  "'w storage_mgr \<Rightarrow> BM_BufferPool \<Rightarrow> BM_PageHandle \<Rightarrow> int32 \<Rightarrow> 'w
     \<Rightarrow> (RC \<times> BM_BufferPool \<times> BM_PageHandle \<times> 'w) option" where
  "pinPage sm bm page pn w =
     (case strategy bm of
        RS_FIFO \<Rightarrow> map_option (\<lambda>r. (RC_OK, snd r)) (pinPageFIFO sm bm page pn w)
      | RS_LRU \<Rightarrow> map_option (\<lambda>r. (RC_OK, snd r)) (pinPageLRU sm bm page pn w)
      | RS_CLOCK \<Rightarrow> map_option (\<lambda>r. (RC_OK, snd r)) (pinPageCLOCK sm bm page pn w)
      | RS_OTHER \<Rightarrow> Some (RC_OK, bm, page, w))"

subsection \<open>The frame a miss selects\<close>

text \<open>
  The middle part of the three pin routines, between the lookup and the read, under one name:
  \<open>selectFrame\<close> is the branch \<open>occupiedFrameCount < numPages\<close> or the replacement loop
  of the strategy of the pool. A frame is \<open>scanned\<close> when the replacement loop of the
  strategy can reach it: under FIFO the frames from \<open>tail\<close> up to \<open>head\<close>, under LRU and
  CLOCK every frame of the ring.
\<close>

definition selectFrame ::
  "'w storage_mgr \<Rightarrow> BM_BufferPool \<Rightarrow> BM_BufferPool_Mgmt \<Rightarrow> int32 \<Rightarrow> 'w \<Rightarrow> 'w selection" where
  "selectFrame sm bm m pn w1 =
     (case strategy bm of
        RS_FIFO \<Rightarrow>
          (if occupiedFrameCount m <s numPages bm
           then Continue (fillHead False pn m) w1 (head m)
           else fifoReplace sm pn m w1 (tail m))
      | RS_LRU \<Rightarrow>
          (if occupiedFrameCount m <s numPages bm
           then Continue (fillHead False pn m) w1 (head m)
           else lruReplace sm pn m w1 (tail m))
      | RS_CLOCK \<Rightarrow>
          (if occupiedFrameCount m <s numPages bm
           then Continue (fillHead True pn m) w1 (head m)
           else clockReplace sm pn m w1 (head m))
      | RS_OTHER \<Rightarrow> Return RC_OK m w1)"

definition scanned :: "BM_BufferPool \<Rightarrow> BM_BufferPool_Mgmt \<Rightarrow> nat \<Rightarrow> bool" where
  "scanned bm m k \<longleftrightarrow>
     k < length (frames m) \<and>
     (strategy bm = RS_FIFO \<longrightarrow>
        ring_dist (length (frames m)) (head m) k
          \<le> ring_dist (length (frames m)) (head m) (tail m))"

section \<open>Statistics\<close>

text \<open>
  The statistics functions walk \<open>numPages\<close> frames from \<open>start\<close> along \<open>next\<close>.
  The C functions \<open>getNumReadIO\<close> and \<open>getNumWriteIO\<close> are \<open>numReadIO\<close> and
  \<open>numWriteIO\<close> here: the fields of the management record that they read have their names.
\<close>

fun ringWalk :: "PageFrame list \<Rightarrow> nat \<Rightarrow> nat \<Rightarrow> PageFrame list" where
  "ringWalk fs i 0 = []"
| "ringWalk fs i (Suc n) = fs ! i # ringWalk fs (nxt fs i) n"

definition statWalk :: "BM_BufferPool \<Rightarrow> PageFrame list option" where
  "statWalk bm =
     (case mgmtData bm of
        None \<Rightarrow> None
      | Some m \<Rightarrow>
          if 0 <s numPages bm \<and> \<not> valid_ring m then None
          else Some (ringWalk (frames m) (start m) (nat (sint (numPages bm)))))"

definition getFrameContents :: "BM_BufferPool \<Rightarrow> int32 list option" where
  "getFrameContents bm = map_option (map pageNum) (statWalk bm)"

definition getDirtyFlags :: "BM_BufferPool \<Rightarrow> bool list option" where
  "getDirtyFlags bm = map_option (map (\<lambda>f. dirtyFlagSignal f \<noteq> 0)) (statWalk bm)"

definition getFixCounts :: "BM_BufferPool \<Rightarrow> int32 list option" where
  "getFixCounts bm = map_option (map fixCount) (statWalk bm)"

definition numReadIO :: "BM_BufferPool \<Rightarrow> int32 option" where
  "numReadIO bm = map_option getNumReadIO (mgmtData bm)"

definition numWriteIO :: "BM_BufferPool \<Rightarrow> int32 option" where
  "numWriteIO bm = map_option getNumWriteIO (mgmtData bm)"

section \<open>A storage manager and a client, for concrete runs\<close>

text \<open>
  Modelled from the spec: storage_mgr.c is not among the sources; this storage manager follows
  sections 4.4 and 6 of the spec. The page file is a list of blocks; it can be opened when it
  exists; \<open>readBlock\<close> and \<open>writeBlock\<close> need an open file and a block that exists;
  \<open>ensureCapacity\<close> appends zero-filled blocks. A failed \<open>readBlock\<close> leaves the buffer
  as it was.
\<close>

record disk =
  file_exists :: bool
  file_open :: bool
  blocks :: "string list"

definition disk_mgr :: "nat \<Rightarrow> disk storage_mgr" where
  "disk_mgr PAGE_SIZE =
     \<lparr>openPageFile = (\<lambda>name d.
        if name \<noteq> None \<and> file_exists d then (RC_OK, d\<lparr>file_open := True\<rparr>)
        else (RC_FILE_NOT_FOUND, d\<lparr>file_open := False\<rparr>)),
      closePageFile = (\<lambda>d. (RC_OK, d\<lparr>file_open := False\<rparr>)),
      readBlock = (\<lambda>pn buf d.
        if file_exists d \<and> file_open d \<and> 0 \<le>s pn \<and> unat pn < length (blocks d)
        then (RC_OK, blocks d ! unat pn, d)
        else (RC_READ_NON_EXISTING_PAGE, buf, d)),
      writeBlock = (\<lambda>pn buf d.
        if file_exists d \<and> file_open d \<and> 0 \<le>s pn \<and> unat pn < length (blocks d)
        then (RC_OK, d\<lparr>blocks := (blocks d)[unat pn := buf]\<rparr>)
        else (RC_WRITE_FAILED, d)),
      ensureCapacity = (\<lambda>n d.
        if file_exists d \<and> file_open d
        then (RC_OK, d\<lparr>blocks := blocks d @
                replicate (nat (sint n) - length (blocks d)) (replicate PAGE_SIZE (CHR 0x00))\<rparr>)
        else (RC_FILE_NOT_FOUND, d))\<rparr>"

text \<open>
  A client: a sequence of calls of the public operations on one pool. A call of \<open>unpinPage\<close>
  or \<open>markDirty\<close> passes a handle with the page number; the return codes are dropped.
\<close>

datatype call = Pin int32 | Unpin int32 | Dirty int32 | Flush

fun run ::
  "'w storage_mgr \<Rightarrow> call list \<Rightarrow> BM_BufferPool \<times> BM_PageHandle \<times> 'w
     \<Rightarrow> (BM_BufferPool \<times> BM_PageHandle \<times> 'w) option" where
  "run sm [] s = Some s"
| "run sm (Pin p # cs) (bm, page, w) =
     (case pinPage sm bm page p w of
        None \<Rightarrow> None
      | Some (rc, bm', page', w') \<Rightarrow> run sm cs (bm', page', w'))"
| "run sm (Unpin p # cs) (bm, page, w) =
     (case unpinPage bm (page\<lparr>h_pageNum := p\<rparr>) of
        None \<Rightarrow> None
      | Some (rc, bm') \<Rightarrow> run sm cs (bm', page, w))"
| "run sm (Dirty p # cs) (bm, page, w) =
     (case markDirty bm (page\<lparr>h_pageNum := p\<rparr>) of
        None \<Rightarrow> None
      | Some (rc, bm') \<Rightarrow> run sm cs (bm', page, w))"
| "run sm (Flush # cs) (bm, page, w) =
     (case forceFlushPool sm bm w of
        None \<Rightarrow> None
      | Some (rc, bm', w') \<Rightarrow> run sm cs (bm', page, w'))"

text \<open>
  The page file of the concrete runs exists and has six blocks of two bytes, block \<open>k\<close>
  holding \<open>pk\<close>; \<open>fresh n strat\<close> is the pool of \<open>n\<close> frames that \<open>initBufferPool\<close>
  creates on it, with a handle that points nowhere; \<open>state_after cs n strat\<close> is the state
  after the client has made the calls \<open>cs\<close> on that pool.
\<close>

definition disk0 :: disk where
  "disk0 = \<lparr>file_exists = True, file_open = False,
             blocks = [''p0'', ''p1'', ''p2'', ''p3'', ''p4'', ''p5'']\<rparr>"

definition bm0 :: BM_BufferPool where
  "bm0 = \<lparr>pageFile = None, numPages = 0, strategy = RS_FIFO, mgmtData = None\<rparr>"

definition page0 :: BM_PageHandle where
  "page0 = \<lparr>h_pageNum = - 1, h_data = None\<rparr>"

definition fresh ::
  "int32 \<Rightarrow> ReplacementStrategy \<Rightarrow> BM_BufferPool \<times> BM_PageHandle \<times> disk" where
  "fresh n strat =
     (case initBufferPool (disk_mgr 2) 2 bm0 ''f'' n strat disk0 of
        (rc, bm, w) \<Rightarrow> (bm, page0, w))"

definition state_after ::
  "call list \<Rightarrow> int32 \<Rightarrow> ReplacementStrategy \<Rightarrow> BM_BufferPool \<times> BM_PageHandle \<times> disk" where
  "state_after cs n strat =
     (case run (disk_mgr 2) cs (fresh n strat) of Some s \<Rightarrow> s | None \<Rightarrow> fresh n strat)"

definition pool_after :: "call list \<Rightarrow> int32 \<Rightarrow> ReplacementStrategy \<Rightarrow> BM_BufferPool" where
  "pool_after cs n strat = fst (state_after cs n strat)"

definition disk_after :: "call list \<Rightarrow> int32 \<Rightarrow> ReplacementStrategy \<Rightarrow> disk" where
  "disk_after cs n strat = snd (snd (state_after cs n strat))"

definition mgmt_of :: "BM_BufferPool \<Rightarrow> BM_BufferPool_Mgmt" where
  "mgmt_of bm =
     (case mgmtData bm of
        Some m \<Rightarrow> m
      | None \<Rightarrow> \<lparr>occupiedFrameCount = 0, frames = [], head = 0, tail = 0, start = 0,
                  getNumReadIO = 0, getNumWriteIO = 0\<rparr>)"

text \<open>The page file deleted after the pool was created: it cannot be opened any more.\<close>

definition disk_gone :: disk where
  "disk_gone = disk0\<lparr>file_exists := False\<rparr>"

text \<open>The return code and the pool of a result.\<close>

definition rc_of :: "(RC \<times> 'a) option \<Rightarrow> RC option" where
  "rc_of r = map_option fst r"

definition pool_of :: "(RC \<times> BM_BufferPool \<times> 'a) option \<Rightarrow> BM_BufferPool" where
  "pool_of r = (case r of Some (rc, bm, x) \<Rightarrow> bm | None \<Rightarrow> bm0)"

definition buffers :: "BM_BufferPool \<Rightarrow> string list" where
  "buffers bm = map data (frames (mgmt_of bm))"

definition referenceBits :: "BM_BufferPool \<Rightarrow> int32 list" where
  "referenceBits bm = map referenceBit (frames (mgmt_of bm))"

section \<open>Dirty frames and empty frames\<close>

text \<open>
  In the specification an empty frame is never dirty. The code keeps this as long as the
  client passes page numbers: \<open>dirty_occupied\<close> says that every frame with the dirty flag
  set holds a page, and \<open>page_given\<close> that a call of the client does not pass \<open>NO_PAGE\<close>
  where a page number is expected.
\<close>

definition dirty_occupied :: "PageFrame list \<Rightarrow> bool" where
  "dirty_occupied fs \<longleftrightarrow> (\<forall>f\<in>set fs. dirtyFlagSignal f = 1 \<longrightarrow> pageNum f \<noteq> NO_PAGE)"

definition pool_dirty_occupied :: "BM_BufferPool \<Rightarrow> bool" where
  "pool_dirty_occupied bm \<longleftrightarrow>
     (case mgmtData bm of None \<Rightarrow> True | Some m \<Rightarrow> dirty_occupied (frames m))"

fun page_given :: "call \<Rightarrow> bool" where
  "page_given (Pin p) \<longleftrightarrow> p \<noteq> NO_PAGE"
| "page_given (Unpin p) \<longleftrightarrow> True"
| "page_given (Dirty p) \<longleftrightarrow> p \<noteq> NO_PAGE"
| "page_given Flush \<longleftrightarrow> True"

definition selection_mgmt :: "'w selection \<Rightarrow> BM_BufferPool_Mgmt" where
  "selection_mgmt s = (case s of Return rc m w \<Rightarrow> m | Continue m w i \<Rightarrow> m)"

section \<open>The ring and the lookup\<close>

lemma nxt_less: "i < length fs \<Longrightarrow> nxt fs i < length fs"
  by (cases "length fs = 0") (simp_all add: nxt_def)

lemma ring_dist_pos: "k < n \<Longrightarrow> h < n \<Longrightarrow> 1 \<le> ring_dist n h k"
  by (auto simp: ring_dist_def)

lemma ring_dist_inj:
  "h < n \<Longrightarrow> k < n \<Longrightarrow> i < n \<Longrightarrow> ring_dist n h k = ring_dist n h i \<Longrightarrow> k = i"
  by (auto simp: ring_dist_def split: if_splits)

lemma ring_dist_nxt:
  "h < length fs \<Longrightarrow> i < length fs \<Longrightarrow> nxt fs i \<noteq> h \<Longrightarrow>
     Suc (ring_dist (length fs) h (nxt fs i)) = ring_dist (length fs) h i"
  by (auto simp: ring_dist_def nxt_def mod_Suc split: if_splits)

lemma ring_dist_last:
  "h < length fs \<Longrightarrow> i < length fs \<Longrightarrow> nxt fs i = h \<Longrightarrow> ring_dist (length fs) h i = 1"
  by (auto simp: ring_dist_def nxt_def mod_Suc split: if_splits)

lemma ring_dist_head: "h < n \<Longrightarrow> k < n \<Longrightarrow> ring_dist n h k \<le> ring_dist n h h"
  by (auto simp: ring_dist_def)

text \<open>A frame that the lookup returns holds the page.\<close>

lemma findPage_Some:
  "findPage fs h pn i = Some k \<Longrightarrow> k < length fs \<and> pageNum (fs ! k) = pn"
proof (induction fs h pn i rule: findPage.induct)
  case (1 fs h pn i)
  from "1.prems" show ?case
    by (subst (asm) findPage.simps) (auto split: if_splits dest: "1.IH" [rotated -1])
qed

text \<open>
  When the lookup started at frame \<open>i\<close> finds nothing, no frame between \<open>i\<close> and the head
  holds the page.
\<close>

lemma findPage_None:
  "findPage fs h pn i = None \<Longrightarrow> h < length fs \<Longrightarrow> i < length fs \<Longrightarrow> k < length fs \<Longrightarrow>
     ring_dist (length fs) h k \<le> ring_dist (length fs) h i \<Longrightarrow> pageNum (fs ! k) \<noteq> pn"
proof (induction fs h pn i rule: findPage.induct)
  case (1 fs h pn i)
  have ne: "pageNum (fs ! i) \<noteq> pn"
    using "1.prems"(1-3) by (subst (asm) findPage.simps) (auto split: if_splits)
  show ?case
  proof (cases "k = i")
    case True
    with ne show ?thesis by simp
  next
    case False
    show ?thesis
    proof (cases "nxt fs i = h")
      case True
      from ring_dist_last [OF "1.prems"(2,3) True] "1.prems"(5)
        ring_dist_pos [OF "1.prems"(4,2)]
      have "ring_dist (length fs) h k = ring_dist (length fs) h i" by simp
      from ring_dist_inj [OF "1.prems"(2,4,3) this] False show ?thesis by simp
    next
      case nh: False
      have rec: "findPage fs h pn (nxt fs i) = None"
        using "1.prems"(1-3) ne nh by (subst (asm) findPage.simps) simp
      have "ring_dist (length fs) h k \<noteq> ring_dist (length fs) h i"
        using ring_dist_inj [OF "1.prems"(2,4,3)] False by blast
      with "1.prems"(5) ring_dist_nxt [OF "1.prems"(2,3) nh]
      have le: "ring_dist (length fs) h k \<le> ring_dist (length fs) h (nxt fs i)" by simp
      have g: "h < length fs \<and> i < length fs" using "1.prems" by simp
      from "1.IH" [OF g ne nh rec "1.prems"(2) nxt_less [OF "1.prems"(3)] "1.prems"(4) le]
      show ?thesis .
    qed
  qed
qed

text \<open>The lookup started at the head finds every page that some frame holds.\<close>

lemma findPage_complete:
  assumes "h < length fs" "k < length fs" "pageNum (fs ! k) = pn"
  shows "\<exists>f. findPage fs h pn h = Some f \<and> f < length fs \<and> pageNum (fs ! f) = pn"
proof (cases "findPage fs h pn h")
  case None
  from findPage_None [OF None assms(1) assms(1) assms(2) ring_dist_head [OF assms(1,2)]] assms(3)
  show ?thesis by simp
next
  case (Some f)
  with findPage_Some [OF Some] show ?thesis by simp
qed

section \<open>The pin routines return\<close>

lemma pinPageFIFO_defined:
  assumes "mgmtData bm = Some m" and "valid_ring m"
  shows "\<exists>rc r. pinPageFIFO sm bm page pn w = Some (rc, r)"
proof -
  from assms have "pinPageFIFO sm bm page pn w \<noteq> None"
    by (simp add: pinPageFIFO_def)
  then obtain x where "pinPageFIFO sm bm page pn w = Some x" by blast
  then show ?thesis by (cases x) simp
qed

lemma pinPageLRU_defined:
  assumes "mgmtData bm = Some m" and "valid_ring m"
  shows "\<exists>rc r. pinPageLRU sm bm page pn w = Some (rc, r)"
proof -
  from assms have "pinPageLRU sm bm page pn w \<noteq> None"
    by (simp add: pinPageLRU_def)
  then obtain x where "pinPageLRU sm bm page pn w = Some x" by blast
  then show ?thesis by (cases x) simp
qed

lemma pinPageCLOCK_defined:
  assumes "mgmtData bm = Some m" and "valid_ring m"
  shows "\<exists>rc r. pinPageCLOCK sm bm page pn w = Some (rc, r)"
proof -
  from assms have "pinPageCLOCK sm bm page pn w \<noteq> None"
    by (simp add: pinPageCLOCK_def)
  then obtain x where "pinPageCLOCK sm bm page pn w = Some x" by blast
  then show ?thesis by (cases x) simp
qed

section \<open>Flushing and replacing\<close>

lemma flushLoop_rc:
  "fst (flushLoop sm h fs nw w i) = RC_OK \<or> fst (flushLoop sm h fs nw w i) = RC_WRITE_FAILED"
proof (induction sm h fs nw w i rule: flushLoop.induct)
  case (1 sm h fs nw w i)
  then show ?case
    by (simp add: flushLoop.simps [of sm h fs nw w i])
qed

text \<open>
  The loop of \<open>forceFlushPool\<close> at the \<open>k\<close>-th frame from the head does what the
  specification says for the rest of the ring, when every dirty frame holds a page.
\<close>

lemma ring_step:
  "i = (h + k) mod length fs \<Longrightarrow> nxt fs i = (h + Suc k) mod length fs"
  by (simp add: nxt_def mod_Suc_eq)

lemma ring_not_back:
  assumes "h < n" "k < n" "(h + Suc k) mod n \<noteq> h"
  shows "Suc k < n"
proof (rule ccontr)
  assume "\<not> Suc k < n"
  with assms(2) have "Suc k = n" by simp
  with assms(1) have "(h + Suc k) mod n = h" by simp
  with assms(3) show False by simp
qed

lemma ring_back:
  assumes "h < n" "k < n" "(h + Suc k) mod n = h"
  shows "Suc k = n"
proof (rule ccontr)
  assume "Suc k \<noteq> n"
  with assms(2) have lt: "Suc k < n" by simp
  show False
  proof (cases "h + Suc k < n")
    case True
    with assms(3) show False by simp
  next
    case False
    then have "(h + Suc k) mod n = h + Suc k - n"
      using assms(1) lt by (simp add: le_mod_geq)
    with assms(3) lt False show False by simp
  qed
qed

lemma flushLoop_flushSpec:
  assumes "h < length fs" and "k < length fs" and "i = (h + k) mod length fs"
    and "\<forall>j<length fs. dirtyFlagSignal (fs ! j) = 1 \<longrightarrow> pageNum (fs ! j) \<noteq> NO_PAGE"
  shows "flushLoop sm h fs nw w i =
           (case flushSpec sm (map (\<lambda>k. (h + k) mod length fs) [k..<length fs]) fs nw w of
              (rc, fs', nw', w') \<Rightarrow> (rc, fs', nw', snd (closePageFile sm w')))"
  using assms
proof (induction "length fs - k" arbitrary: k fs nw w i)
  case 0
  then show ?case by simp
next
  case (Suc d)
  let ?n = "length fs"
  have npos: "0 < ?n" using Suc.prems(1) by (cases fs) auto
  have i: "i < ?n" using Suc.prems(3) npos by simp
  have up: "[k..<?n] = k # [Suc k..<?n]"
    using Suc.prems(2) by (simp add: upt_conv_Cons)
  have nx: "nxt fs i = (h + Suc k) mod ?n"
    using Suc.prems(3) by (rule ring_step)
  let ?f = "fs ! i"
  let ?fs' = "fs[i := ?f\<lparr>dirtyFlagSignal := 0\<rparr>]"
  have inv': "\<forall>j<length ?fs'. dirtyFlagSignal (?fs' ! j) = 1 \<longrightarrow> pageNum (?fs' ! j) \<noteq> NO_PAGE"
    using Suc.prems(4) i by (auto simp: nth_list_update)
  have ik: "(h + k) mod ?n = i" using Suc.prems(3) by simp
  show ?case
  proof (cases "nxt fs i = h")
    case True
    with nx Suc.prems(1,2) have "Suc k = ?n" using ring_back by metis
    then have e: "[Suc k..<?n] = []" by simp
    show ?thesis
      using True Suc.prems(1,4) i
      by (subst flushLoop.simps) (simp add: up e ik flushable_def split: prod.splits)
  next
    case False
    with nx Suc.prems(1,2) have sk: "Suc k < ?n" using ring_not_back by metis
    with Suc.hyps(2) have d: "d = ?n - Suc k" by simp
    have rec1: "flushLoop sm h fs nw w (nxt fs i) =
           (case flushSpec sm (map (\<lambda>k. (h + k) mod ?n) [Suc k..<?n]) fs nw w of
              (rc, fs', nw', w') \<Rightarrow> (rc, fs', nw', snd (closePageFile sm w')))" for nw w
      by (rule Suc.hyps(1) [OF d Suc.prems(1) sk nx Suc.prems(4)])
    have d': "d = length ?fs' - Suc k" using d by simp
    have rec2: "flushLoop sm h ?fs' nw w (nxt fs i) =
           (case flushSpec sm (map (\<lambda>k. (h + k) mod ?n) [Suc k..<?n]) ?fs' nw w of
              (rc, fs', nw', w') \<Rightarrow> (rc, fs', nw', snd (closePageFile sm w')))" for nw w
      using Suc.hyps(1) [OF d', where i = "nxt fs i" and nw = nw and w = w]
        Suc.prems(1) sk nx inv' by simp
    show ?thesis
      using False Suc.prems(1,4) i
      by (subst flushLoop.simps) (simp add: up ik rec1 rec2 flushable_def split: prod.splits)
  qed
qed

lemma ringOrder_perm:
  assumes "h < n"
  shows "distinct (ringOrder n h) \<and> set (ringOrder n h) = {..<n}"
proof -
  have inj: "inj_on (\<lambda>k. (h + k) mod n) {0..<n}"
  proof (rule inj_onI)
    fix x y assume x: "x \<in> {0..<n}" and y: "y \<in> {0..<n}"
      and e: "(h + x) mod n = (h + y) mod n"
    have "(h + x) mod n = (if h + x < n then h + x else h + x - n)"
      using x assms by (auto simp: le_mod_geq)
    moreover have "(h + y) mod n = (if h + y < n then h + y else h + y - n)"
      using y assms by (auto simp: le_mod_geq)
    ultimately have "(if h + x < n then h + x else h + x - n)
        = (if h + y < n then h + y else h + y - n)"
      using e by simp
    with x y assms show "x = y" by (auto split: if_splits)
  qed
  then have d: "distinct (ringOrder n h)"
    by (simp add: ringOrder_def distinct_map)
  have "set (ringOrder n h) \<subseteq> {..<n}"
    using assms by (auto simp: ringOrder_def)
  moreover have "card (set (ringOrder n h)) = n"
    using d distinct_card [of "ringOrder n h"] by (simp add: ringOrder_def)
  ultimately have "set (ringOrder n h) = {..<n}"
    by (intro card_subset_eq) simp_all
  with d show ?thesis by simp
qed

lemma flushSpec_OK:
  assumes "distinct js" and "set js \<subseteq> {..<length fs}"
    and "flushSpec sm js fs nw w = (RC_OK, fs', nw', w')"
  shows "length fs' = length fs \<and>
         (\<forall>j<length fs. fs' ! j = (if j \<in> set js \<and> flushable (fs ! j)
                                     then (fs ! j)\<lparr>dirtyFlagSignal := 0\<rparr> else fs ! j)) \<and>
         nw' = nw + of_nat (length (filter (\<lambda>j. flushable (fs ! j)) js))"
  using assms
proof (induction js arbitrary: fs nw w)
  case Nil
  then show ?case by simp
next
  case (Cons i js)
  from Cons.prems have i: "i < length fs" "i \<notin> set js" "distinct js" "set js \<subseteq> {..<length fs}"
    by auto
  show ?case
  proof (cases "flushable (fs ! i)")
    case False
    with Cons.prems(3) have "flushSpec sm js fs nw w = (RC_OK, fs', nw', w')" by simp
    from Cons.IH [OF i(3,4) this] False show ?thesis by auto
  next
    case True
    let ?fs1 = "fs[i := (fs ! i)\<lparr>dirtyFlagSignal := 0\<rparr>]"
    obtain rc w1 where wb: "writeBlock sm (pageNum (fs ! i)) (data (fs ! i)) w = (rc, w1)"
      by (cases "writeBlock sm (pageNum (fs ! i)) (data (fs ! i)) w")
    with Cons.prems(3) True have rc: "rc = RC_OK"
      by (auto split: if_splits)
    with Cons.prems(3) True wb have r: "flushSpec sm js ?fs1 (nw + 1) w1 = (RC_OK, fs', nw', w')"
      by simp
    have s1: "set js \<subseteq> {..<length ?fs1}" using i(4) by simp
    have same: "?fs1 ! j = fs ! j" if "j \<in> set js" for j
    proof -
      from that i(2) have "i \<noteq> j" by auto
      then show ?thesis by simp
    qed
    then have cnt: "filter (\<lambda>j. flushable (?fs1 ! j)) js = filter (\<lambda>j. flushable (fs ! j)) js"
      by (intro filter_cong) simp_all
    from Cons.IH [OF i(3) s1 r] have
      l: "length fs' = length fs" and
      a: "\<forall>j<length fs. fs' ! j = (if j \<in> set js \<and> flushable (?fs1 ! j)
                                        then (?fs1 ! j)\<lparr>dirtyFlagSignal := 0\<rparr> else ?fs1 ! j)" and
      n: "nw' = nw + 1 + of_nat (length (filter (\<lambda>j. flushable (?fs1 ! j)) js))"
      by simp_all
    have "\<forall>j<length fs. fs' ! j = (if j \<in> set (i # js) \<and> flushable (fs ! j)
                                     then (fs ! j)\<lparr>dirtyFlagSignal := 0\<rparr> else fs ! j)"
    proof (intro allI impI)
      fix j assume j: "j < length fs"
      show "fs' ! j = (if j \<in> set (i # js) \<and> flushable (fs ! j)
                        then (fs ! j)\<lparr>dirtyFlagSignal := 0\<rparr> else fs ! j)"
      proof (cases "j = i")
        case True
        with a j i(1,2) \<open>flushable (fs ! i)\<close> show ?thesis by simp
      next
        case False
        with a j i(1) show ?thesis by (simp add: nth_list_update)
      qed
    qed
    with l n cnt True show ?thesis by simp
  qed
qed

text \<open>The frames that meet \<open>flushable\<close>, counted along any order that visits each frame once.\<close>

lemma count_flushable:
  assumes "distinct js" and "set js = {..<length fs}"
  shows "length (filter (\<lambda>j. flushable (fs ! j)) js) = length (filter flushable fs)"
proof -
  have "length (filter (\<lambda>j. flushable (fs ! j)) js) = card ({j. flushable (fs ! j)} \<inter> set js)"
    using assms(1) by (rule distinct_length_filter)
  also have "{j. flushable (fs ! j)} \<inter> set js = {j. j < length fs \<and> flushable (fs ! j)}"
    using assms(2) by auto
  also have "card \<dots> = length (filter flushable fs)"
    by (simp add: length_filter_conv_card)
  finally show ?thesis .
qed

text \<open>
  The replacement loops find a victim. When a frame that the loop scans is not in use, the
  loop of \<open>pinPageFIFO\<close> stops at a frame \<open>c\<close> that is not in use, writes it back if it
  is dirty and binds it to the page; the loop of \<open>pinPageLRU\<close> does the same when
  \<open>tail != head\<close> and binds the frame after \<open>c\<close> otherwise; the loop of
  \<open>pinPageCLOCK\<close> binds the frame at which the sweep from \<open>c\<close> stops.
\<close>

lemma ring_scan_step:
  assumes "h < length fs" "i < length fs" "k < length fs" "k \<noteq> i"
    and "ring_dist (length fs) h k \<le> ring_dist (length fs) h i"
  shows "nxt fs i \<noteq> h \<and> ring_dist (length fs) h k \<le> ring_dist (length fs) h (nxt fs i)"
proof (cases "nxt fs i = h")
  case True
  from ring_dist_last [OF assms(1,2) True] assms(5) ring_dist_pos [OF assms(3,1)]
  have "ring_dist (length fs) h k = ring_dist (length fs) h i" by simp
  from ring_dist_inj [OF assms(1,3,2) this] assms(4) show ?thesis by simp
next
  case False
  have "ring_dist (length fs) h k \<noteq> ring_dist (length fs) h i"
    using ring_dist_inj [OF assms(1,3,2)] assms(4) by blast
  with assms(5) ring_dist_nxt [OF assms(1,2) False] False show ?thesis by simp
qed

lemma fifoReplace_victim:
  assumes "head m < length (frames m)" and "i < length (frames m)"
    and "k < length (frames m)" and "fixCount (frames m ! k) = 0"
    and "ring_dist (length (frames m)) (head m) k \<le> ring_dist (length (frames m)) (head m) i"
  shows "\<exists>c<length (frames m). fixCount (frames m ! c) = 0 \<and>
           fifoReplace sm pn m w i =
             (case writeVictim sm m w c of
                Inl w' \<Rightarrow> Return RC_WRITE_FAILED m w'
              | Inr (nw, w') \<Rightarrow>
                  Continue (m\<lparr>getNumWriteIO := nw,
                              frames := (frames m)[c := (frames m ! c)
                                \<lparr>pageNum := pn, fixCount := fixCount (frames m ! c) + 1\<rparr>],
                              tail := nxt (frames m) c, head := c\<rparr>) w' c)"
  using assms
proof (induction sm pn m w i rule: fifoReplace.induct)
  case (1 sm pn m w i)
  show ?case
  proof (cases "fixCount (frames m ! i) = 0")
    case True
    with "1.prems"(1,2) show ?thesis
      by (intro exI [of _ i]) (simp add: fifoReplace.simps [of sm pn m w i])
  next
    case False
    with "1.prems"(4) have ki: "k \<noteq> i" by auto
    from ring_scan_step [OF "1.prems"(1,2,3) ki "1.prems"(5)]
    have n: "nxt (frames m) i \<noteq> head m"
      and le: "ring_dist (length (frames m)) (head m) k
               \<le> ring_dist (length (frames m)) (head m) (nxt (frames m) i)"
      by simp_all
    have g: "head m < length (frames m) \<and> i < length (frames m)"
      using "1.prems" by simp
    have eq: "fifoReplace sm pn m w i = fifoReplace sm pn m w (nxt (frames m) i)"
      using g False n by (subst fifoReplace.simps) simp
    from "1.IH" [OF g False n "1.prems"(1) nxt_less [OF "1.prems"(2)] "1.prems"(3,4) le]
    show ?thesis unfolding eq .
  qed
qed

lemma lruReplace_victim:
  assumes "tail m < length (frames m)" and "i < length (frames m)"
    and "k < length (frames m)" and "fixCount (frames m ! k) = 0"
    and "ring_dist (length (frames m)) (tail m) k \<le> ring_dist (length (frames m)) (tail m) i"
  shows "\<exists>c<length (frames m). fixCount (frames m ! c) = 0 \<and>
           lruReplace sm pn m w i =
             (case writeVictim sm m w c of
                Inl w' \<Rightarrow> Return RC_WRITE_FAILED m w'
              | Inr (nw, w') \<Rightarrow>
                  if tail m \<noteq> head m then
                    Continue (m\<lparr>getNumWriteIO := nw,
                                frames := (frames m)[c := (frames m ! c)
                                  \<lparr>pageNum := pn, fixCount := fixCount (frames m ! c) + 1\<rparr>],
                                tail := nxt (frames m) c\<rparr>) w' c
                  else
                    Continue (m\<lparr>getNumWriteIO := nw,
                                frames := (frames m)[nxt (frames m) c := (frames m ! nxt (frames m) c)
                                  \<lparr>pageNum := pn,
                                   fixCount := fixCount (frames m ! nxt (frames m) c) + 1\<rparr>],
                                head := nxt (frames m) c,
                                tail := prv (frames m) (nxt (frames m) c)\<rparr>) w' (nxt (frames m) c))"
  using assms
proof (induction sm pn m w i rule: lruReplace.induct)
  case (1 sm pn m w i)
  show ?case
  proof (cases "fixCount (frames m ! i) = 0")
    case True
    with "1.prems"(1,2) show ?thesis
      by (intro exI [of _ i])
         (simp add: lruReplace.simps [of sm pn m w i] Let_def split: sum.splits)
  next
    case False
    with "1.prems"(4) have ki: "k \<noteq> i" by auto
    from ring_scan_step [OF "1.prems"(1,2,3) ki "1.prems"(5)]
    have n: "nxt (frames m) i \<noteq> tail m"
      and le: "ring_dist (length (frames m)) (tail m) k
               \<le> ring_dist (length (frames m)) (tail m) (nxt (frames m) i)"
      by simp_all
    have g: "tail m < length (frames m) \<and> i < length (frames m)"
      using "1.prems" by simp
    have eq: "lruReplace sm pn m w i = lruReplace sm pn m w (nxt (frames m) i)"
      using g False n by (subst lruReplace.simps) simp
    from "1.IH" [OF g False n "1.prems"(1) nxt_less [OF "1.prems"(2)] "1.prems"(3,4) le]
    show ?thesis unfolding eq .
  qed
qed

lemma clockSweep_props:
  "i < length fs \<Longrightarrow>
     length (fst (clockSweep fs i)) = length fs \<and>
     snd (clockSweep fs i) < length fs \<and>
     referenceBit (fst (clockSweep fs i) ! snd (clockSweep fs i)) = 0 \<and>
     (\<forall>j<length fs. fixCount (fst (clockSweep fs i) ! j) = fixCount (fs ! j) \<and>
                     pageNum (fst (clockSweep fs i) ! j) = pageNum (fs ! j))"
proof (induction fs i rule: clockSweep.induct)
  case (1 fs i)
  show ?case
  proof (cases "referenceBit (fs ! i) \<noteq> 0")
    case True
    let ?fs1 = "fs[i := (fs ! i)\<lparr>referenceBit := 0\<rparr>]"
    have n: "nxt fs i < length ?fs1"
      using "1.prems" nxt_less [of i fs] by simp
    have eq: "clockSweep fs i = clockSweep ?fs1 (nxt fs i)"
      using True "1.prems" by (subst clockSweep.simps) simp
    have same: "\<forall>j<length fs. fixCount (?fs1 ! j) = fixCount (fs ! j)
                  \<and> pageNum (?fs1 ! j) = pageNum (fs ! j)"
      using "1.prems" by (auto simp: nth_list_update)
    from "1.IH" [OF _ n] True "1.prems" same show ?thesis
      unfolding eq by simp
  next
    case False
    then have "clockSweep fs i = (fs, i)"
      by (subst clockSweep.simps) simp
    with False "1.prems" show ?thesis by simp
  qed
qed

lemma clockReplace_victim:
  assumes "head m < length (frames m)" and "i < length (frames m)"
    and "k < length (frames m)" and "fixCount (frames m ! k) = 0"
    and "ring_dist (length (frames m)) (head m) k \<le> ring_dist (length (frames m)) (head m) i"
  shows "\<exists>c<length (frames m). fixCount (frames m ! c) = 0 \<and>
           clockReplace sm pn m w i =
             (let m1 = m\<lparr>frames := fst (clockSweep (frames m) c)\<rparr>;
                  j = snd (clockSweep (frames m) c)
              in case writeVictim sm m1 w j of
                   Inl w' \<Rightarrow> Return RC_WRITE_FAILED m1 w'
                 | Inr (nw, w') \<Rightarrow>
                     Continue (m1\<lparr>getNumWriteIO := nw,
                                  frames := (frames m1)[j := (frames m1 ! j)
                                    \<lparr>referenceBit := 1, pageNum := pn,
                                     fixCount := fixCount (frames m1 ! j) + 1\<rparr>],
                                  head := nxt (frames m1) j\<rparr>) w' j)"
  using assms
proof (induction sm pn m w i rule: clockReplace.induct)
  case (1 sm pn m w i)
  show ?case
  proof (cases "fixCount (frames m ! i) = 0")
    case True
    from clockSweep_props [OF "1.prems"(2)]
    have "referenceBit (fst (clockSweep (frames m) i) ! snd (clockSweep (frames m) i)) = 0"
      by simp
    with True "1.prems"(1,2) show ?thesis
      by (intro exI [of _ i])
         (simp add: clockReplace.simps [of sm pn m w i] Let_def split: sum.splits)
  next
    case False
    with "1.prems"(4) have ki: "k \<noteq> i" by auto
    from ring_scan_step [OF "1.prems"(1,2,3) ki "1.prems"(5)]
    have n: "nxt (frames m) i \<noteq> head m"
      and le: "ring_dist (length (frames m)) (head m) k
               \<le> ring_dist (length (frames m)) (head m) (nxt (frames m) i)"
      by simp_all
    have g: "head m < length (frames m) \<and> i < length (frames m)"
      using "1.prems" by simp
    have eq: "clockReplace sm pn m w i = clockReplace sm pn m w (nxt (frames m) i)"
      using g False n by (subst clockReplace.simps) simp
    from "1.IH"(1) [OF g False n "1.prems"(1) nxt_less [OF "1.prems"(2)] "1.prems"(3,4) le]
    show ?thesis unfolding eq .
  qed
qed

lemma fillHead_chosen:
  assumes "head m < length (frames m)"
  shows "length (frames (fillHead b pn m)) = length (frames m) \<and>
         head (fillHead b pn m) < length (frames m) \<and>
         getNumReadIO (fillHead b pn m) = getNumReadIO m \<and>
         pageNum (frames (fillHead b pn m) ! head m) = pn \<and>
         fixCount (frames (fillHead b pn m) ! head m) = fixCount (frames m ! head m) + 1"
  using assms nxt_less [OF assms] by (simp add: fillHead_def Let_def)

lemma selectFrame_chosen:
  assumes v: "valid_ring m" and st: "strategy bm \<noteq> RS_OTHER"
    and sel: "selectFrame sm bm m pn w1 = Continue m1 w2 c"
    and chosen: "occupiedFrameCount m <s numPages bm \<or>
                 (\<exists>k. scanned bm m k \<and> fixCount (frames m ! k) = 0)"
  shows "c < length (frames m) \<and> length (frames m1) = length (frames m) \<and>
         head m1 < length (frames m) \<and> getNumReadIO m1 = getNumReadIO m \<and>
         pageNum (frames m1 ! c) = pn \<and>
         fixCount (frames m1 ! c) = fixCount (frames m ! c) + 1 \<and>
         (occupiedFrameCount m <s numPages bm \<longrightarrow> c = head m)"
proof (cases "occupiedFrameCount m <s numPages bm")
  case True
  from v have h: "head m < length (frames m)" by (simp add: valid_ring_def)
  from sel True st obtain b where "m1 = fillHead b pn m" "c = head m"
    by (cases "strategy bm") (auto simp: selectFrame_def)
  with fillHead_chosen [OF h, of b pn] h show ?thesis by simp
next
  case False
  from v have h: "head m < length (frames m)" and t: "tail m < length (frames m)"
    by (simp_all add: valid_ring_def)
  from chosen False obtain k where sc: "scanned bm m k" and fk: "fixCount (frames m ! k) = 0"
    by blast
  from sc have k: "k < length (frames m)" by (simp add: scanned_def)
  show ?thesis
  proof (cases "strategy bm")
    case RS_FIFO
    with sel False have s: "fifoReplace sm pn m w1 (tail m) = Continue m1 w2 c"
      by (simp add: selectFrame_def)
    from sc RS_FIFO have le: "ring_dist (length (frames m)) (head m) k
        \<le> ring_dist (length (frames m)) (head m) (tail m)"
      by (simp add: scanned_def)
    from fifoReplace_victim [OF h t k fk le, of sm pn w1] obtain c' where
      c': "c' < length (frames m)" and
      eq: "fifoReplace sm pn m w1 (tail m) =
             (case writeVictim sm m w1 c' of
                Inl w' \<Rightarrow> Return RC_WRITE_FAILED m w'
              | Inr (nw, w') \<Rightarrow>
                  Continue (m\<lparr>getNumWriteIO := nw,
                              frames := (frames m)[c' := (frames m ! c')
                                \<lparr>pageNum := pn, fixCount := fixCount (frames m ! c') + 1\<rparr>],
                              tail := nxt (frames m) c', head := c'\<rparr>) w' c')"
      by blast
    show ?thesis
    proof (cases "writeVictim sm m w1 c'")
      case (Inl w')
      with eq s show ?thesis by simp
    next
      case (Inr p)
      with eq s c' False show ?thesis by (cases p) auto
    qed
  next
    case RS_LRU
    with sel False have s: "lruReplace sm pn m w1 (tail m) = Continue m1 w2 c"
      by (simp add: selectFrame_def)
    from lruReplace_victim [OF t t k fk ring_dist_head [OF t k], of sm pn w1] obtain c' where
      c': "c' < length (frames m)" and
      eq: "lruReplace sm pn m w1 (tail m) =
             (case writeVictim sm m w1 c' of
                Inl w' \<Rightarrow> Return RC_WRITE_FAILED m w'
              | Inr (nw, w') \<Rightarrow>
                  if tail m \<noteq> head m then
                    Continue (m\<lparr>getNumWriteIO := nw,
                                frames := (frames m)[c' := (frames m ! c')
                                  \<lparr>pageNum := pn, fixCount := fixCount (frames m ! c') + 1\<rparr>],
                                tail := nxt (frames m) c'\<rparr>) w' c'
                  else
                    Continue (m\<lparr>getNumWriteIO := nw,
                                frames := (frames m)[nxt (frames m) c' := (frames m ! nxt (frames m) c')
                                  \<lparr>pageNum := pn,
                                   fixCount := fixCount (frames m ! nxt (frames m) c') + 1\<rparr>],
                                head := nxt (frames m) c',
                                tail := prv (frames m) (nxt (frames m) c')\<rparr>) w' (nxt (frames m) c'))"
      by blast
    show ?thesis
    proof (cases "writeVictim sm m w1 c'")
      case (Inl w')
      with eq s show ?thesis by simp
    next
      case (Inr p)
      with eq s c' h nxt_less [OF c'] False show ?thesis
        by (cases p) (auto split: if_splits)
    qed
  next
    case RS_CLOCK
    with sel False have s: "clockReplace sm pn m w1 (head m) = Continue m1 w2 c"
      by (simp add: selectFrame_def)
    from clockReplace_victim [OF h h k fk ring_dist_head [OF h k], of sm pn w1] obtain c' where
      c': "c' < length (frames m)" and
      eq: "clockReplace sm pn m w1 (head m) =
             (let m1 = m\<lparr>frames := fst (clockSweep (frames m) c')\<rparr>;
                  j = snd (clockSweep (frames m) c')
              in case writeVictim sm m1 w1 j of
                   Inl w' \<Rightarrow> Return RC_WRITE_FAILED m1 w'
                 | Inr (nw, w') \<Rightarrow>
                     Continue (m1\<lparr>getNumWriteIO := nw,
                                  frames := (frames m1)[j := (frames m1 ! j)
                                    \<lparr>referenceBit := 1, pageNum := pn,
                                     fixCount := fixCount (frames m1 ! j) + 1\<rparr>],
                                  head := nxt (frames m1) j\<rparr>) w' j)"
      by blast
    let ?fs1 = "fst (clockSweep (frames m) c')"
    let ?j = "snd (clockSweep (frames m) c')"
    from clockSweep_props [OF c'] have
      l: "length ?fs1 = length (frames m)" and
      jl: "?j < length (frames m)" and
      fc: "fixCount (?fs1 ! ?j) = fixCount (frames m ! ?j)"
      by simp_all
    from jl l have nj: "nxt ?fs1 ?j < length (frames m)"
      using nxt_less [of ?j ?fs1] by simp
    show ?thesis
    proof (cases "writeVictim sm (m\<lparr>frames := ?fs1\<rparr>) w1 ?j")
      case (Inl w')
      with eq s show ?thesis by (simp add: Let_def)
    next
      case (Inr p)
      with eq s l jl fc nj False show ?thesis
        by (cases p) (auto simp: Let_def)
    qed
  next
    case RS_OTHER
    with st show ?thesis by simp
  qed
qed

section \<open>Every dirty frame holds a page\<close>

text \<open>
  \<open>initBufferPool\<close> creates clean frames, and no operation called with a page number
  leaves a dirty frame without a page: the hypothesis of the theorem on \<open>forceFlushPool\<close>
  below holds in every state that a client reaches from a new pool.
\<close>

lemma dirty_occupied_update:
  assumes "dirty_occupied fs" and "dirtyFlagSignal f = 1 \<longrightarrow> pageNum f \<noteq> NO_PAGE"
  shows "dirty_occupied (fs[i := f])"
  using assms set_update_subset_insert [of fs i f]
  by (auto simp: dirty_occupied_def)

lemma dirty_occupied_nth:
  "dirty_occupied fs \<Longrightarrow> i < length fs \<Longrightarrow> dirtyFlagSignal (fs ! i) = 1 \<Longrightarrow>
     pageNum (fs ! i) \<noteq> NO_PAGE"
  by (auto simp: dirty_occupied_def)

lemma dirty_occupied_keep:
  assumes "dirty_occupied fs" and "i < length fs"
    and "pageNum f = pageNum (fs ! i)" and "dirtyFlagSignal f = dirtyFlagSignal (fs ! i)"
  shows "dirty_occupied (fs[i := f])"
  using assms dirty_occupied_nth [OF assms(1,2)]
  by (intro dirty_occupied_update) auto

lemma flushLoop_dirty_occupied:
  "dirty_occupied fs \<Longrightarrow> dirty_occupied (fst (snd (flushLoop sm h fs nw w i)))"
proof (induction sm h fs nw w i rule: flushLoop.induct)
  case (1 sm h fs nw w i)
  have u: "dirty_occupied (fs[i := (fs ! i)\<lparr>dirtyFlagSignal := 0\<rparr>])"
    using "1.prems" by (rule dirty_occupied_update) simp
  show ?case
    using 1 u by (subst flushLoop.simps) simp
qed

lemma clockSweep_dirty_occupied:
  "dirty_occupied fs \<Longrightarrow> dirty_occupied (fst (clockSweep fs i))"
proof (induction fs i rule: clockSweep.induct)
  case (1 fs i)
  show ?case
  proof (cases "i < length fs \<and> referenceBit (fs ! i) \<noteq> 0")
    case True
    then have "dirty_occupied (fs[i := (fs ! i)\<lparr>referenceBit := 0\<rparr>])"
      using "1.prems" by (intro dirty_occupied_keep) simp_all
    from "1.IH" [OF True this] True show ?thesis
      by (subst clockSweep.simps) simp
  next
    case False
    with "1.prems" show ?thesis
      by (subst clockSweep.simps) auto
  qed
qed

lemma fifoReplace_dirty_occupied:
  "dirty_occupied (frames m) \<Longrightarrow> pn \<noteq> NO_PAGE \<Longrightarrow>
     dirty_occupied (frames (selection_mgmt (fifoReplace sm pn m w i)))"
proof (induction sm pn m w i rule: fifoReplace.induct)
  case (1 sm pn m w i)
  have u: "dirty_occupied ((frames m)[i := (frames m ! i)\<lparr>pageNum := pn, fixCount := c\<rparr>])" for c
    using "1.prems" by (intro dirty_occupied_update) simp_all
  show ?case
    using 1 u by (subst fifoReplace.simps) (simp add: selection_mgmt_def split: sum.splits)
qed

lemma lruReplace_dirty_occupied:
  "dirty_occupied (frames m) \<Longrightarrow> pn \<noteq> NO_PAGE \<Longrightarrow>
     dirty_occupied (frames (selection_mgmt (lruReplace sm pn m w i)))"
proof (induction sm pn m w i rule: lruReplace.induct)
  case (1 sm pn m w i)
  have u: "dirty_occupied ((frames m)[j := (frames m ! j)\<lparr>pageNum := pn, fixCount := c\<rparr>])" for j c
    using "1.prems" by (intro dirty_occupied_update) simp_all
  show ?case
    using 1 u by (subst lruReplace.simps) (simp add: selection_mgmt_def Let_def split: sum.splits)
qed

lemma clockReplace_dirty_occupied:
  "dirty_occupied (frames m) \<Longrightarrow> pn \<noteq> NO_PAGE \<Longrightarrow>
     dirty_occupied (frames (selection_mgmt (clockReplace sm pn m w i)))"
proof (induction sm pn m w i rule: clockReplace.induct)
  case (1 sm pn m w i)
  let ?fs1 = "fst (clockSweep (frames m) i)"
  have s: "dirty_occupied ?fs1"
    using "1.prems"(1) by (rule clockSweep_dirty_occupied)
  have u: "dirty_occupied (?fs1[j := (?fs1 ! j)
      \<lparr>referenceBit := 1, pageNum := pn, fixCount := c\<rparr>])" for j c
    using s "1.prems"(2) by (intro dirty_occupied_update) simp_all
  show ?case
    using 1 s u by (subst clockReplace.simps) (simp add: selection_mgmt_def Let_def split: sum.splits)
qed

lemma dirty_occupied_same:
  assumes "dirty_occupied fs"
    and "pageNum f = pageNum (fs ! i)" and "dirtyFlagSignal f = dirtyFlagSignal (fs ! i)"
  shows "dirty_occupied (fs[i := f])"
proof (cases "i < length fs")
  case True
  with assms show ?thesis by (intro dirty_occupied_keep)
next
  case False
  with assms(1) show ?thesis by (simp add: list_update_beyond)
qed

lemma loadPage_dirty_occupied:
  assumes "dirty_occupied (frames m)"
  shows "pool_dirty_occupied (fst (snd (loadPage sm c pn bm m w page i)))"
proof -
  have "dirty_occupied ((frames m)[i := (frames m ! i)\<lparr>data := buf\<rparr>])" for buf
    using assms by (intro dirty_occupied_same) simp_all
  then show ?thesis
    by (simp add: loadPage_def Let_def pool_dirty_occupied_def split: prod.splits)
qed

lemma fillHead_dirty_occupied:
  assumes "dirty_occupied (frames m)" and "pn \<noteq> NO_PAGE"
  shows "dirty_occupied (frames (fillHead b pn m))"
proof -
  have "dirty_occupied ((frames m)[j := f\<lparr>pageNum := pn, fixCount := c\<rparr>])" for j f c
    using assms by (intro dirty_occupied_update) simp_all
  moreover have "dirty_occupied ((frames m)[j := f\<lparr>pageNum := pn, referenceBit := 1, fixCount := c\<rparr>])"
    for j f c
    using assms by (intro dirty_occupied_update) simp_all
  ultimately show ?thesis
    by (simp add: fillHead_def Let_def)
qed

lemma selection_dirty_occupied:
  assumes "dirty_occupied (frames (selection_mgmt s))"
  shows "pool_dirty_occupied (fst (snd (case s of
           Return rc m' w' \<Rightarrow> (rc, bm\<lparr>mgmtData := Some m'\<rparr>, page, w')
         | Continue m' w' i \<Rightarrow> loadPage sm c pn bm m' w' page i)))"
proof (cases s)
  case (Return rc m' w')
  with assms show ?thesis by (simp add: selection_mgmt_def pool_dirty_occupied_def)
next
  case (Continue m' w' i)
  with assms loadPage_dirty_occupied [of m' sm c pn bm w' page i] show ?thesis
    by (simp add: selection_mgmt_def)
qed

lemma pinPageFIFO_dirty_occupied:
  assumes "pool_dirty_occupied bm" and "pn \<noteq> NO_PAGE"
    and "pinPageFIFO sm bm page pn w = Some r"
  shows "pool_dirty_occupied (fst (snd r))"
proof -
  from assms(3) obtain m where m: "mgmtData bm = Some m" and v: "valid_ring m"
    by (auto simp: pinPageFIFO_def split: option.splits if_splits)
  from assms(1) m have d: "dirty_occupied (frames m)" by (simp add: pool_dirty_occupied_def)
  let ?w1 = "snd (openPageFile sm (pageFile bm) w)"
  show ?thesis
  proof (cases "findPage (frames m) (head m) pn (head m)")
    case (Some i)
    have "dirty_occupied ((frames m)[i := (frames m ! i)\<lparr>pageNum := pn, fixCount := c\<rparr>])" for c
      using d assms(2) by (intro dirty_occupied_update) simp_all
    with assms(3) m v Some show ?thesis
      by (auto simp: pinPageFIFO_def pool_dirty_occupied_def)
  next
    case None
    let ?s = "if occupiedFrameCount m <s numPages bm
              then Continue (fillHead False pn m) ?w1 (head m)
              else fifoReplace sm pn m ?w1 (tail m)"
    have "dirty_occupied (frames (selection_mgmt ?s))"
      using fillHead_dirty_occupied [OF d assms(2), of False]
        fifoReplace_dirty_occupied [OF d assms(2), of sm ?w1 "tail m"]
      by (simp add: selection_mgmt_def)
    from selection_dirty_occupied [OF this, of bm page sm True pn] assms(3) m v None
    show ?thesis by (auto simp: pinPageFIFO_def Let_def)
  qed
qed

lemma pinPageLRU_dirty_occupied:
  assumes "pool_dirty_occupied bm" and "pn \<noteq> NO_PAGE"
    and "pinPageLRU sm bm page pn w = Some r"
  shows "pool_dirty_occupied (fst (snd r))"
proof -
  from assms(3) obtain m where m: "mgmtData bm = Some m" and v: "valid_ring m"
    by (auto simp: pinPageLRU_def split: option.splits if_splits)
  from assms(1) m have d: "dirty_occupied (frames m)" by (simp add: pool_dirty_occupied_def)
  let ?w1 = "snd (openPageFile sm (pageFile bm) w)"
  show ?thesis
  proof (cases "findPage (frames m) (head m) pn (head m)")
    case (Some i)
    have "dirty_occupied ((frames m)[i := (frames m ! i)\<lparr>pageNum := pn, fixCount := c\<rparr>])" for c
      using d assms(2) by (intro dirty_occupied_update) simp_all
    with assms(3) m v Some show ?thesis
      by (auto simp: pinPageLRU_def pool_dirty_occupied_def)
  next
    case None
    let ?s = "if occupiedFrameCount m <s numPages bm
              then Continue (fillHead False pn m) ?w1 (head m)
              else lruReplace sm pn m ?w1 (tail m)"
    have "dirty_occupied (frames (selection_mgmt ?s))"
      using fillHead_dirty_occupied [OF d assms(2), of False]
        lruReplace_dirty_occupied [OF d assms(2), of sm ?w1 "tail m"]
      by (simp add: selection_mgmt_def)
    from selection_dirty_occupied [OF this, of bm page sm False pn] assms(3) m v None
    show ?thesis by (auto simp: pinPageLRU_def Let_def)
  qed
qed

lemma pinPageCLOCK_dirty_occupied:
  assumes "pool_dirty_occupied bm" and "pn \<noteq> NO_PAGE"
    and "pinPageCLOCK sm bm page pn w = Some r"
  shows "pool_dirty_occupied (fst (snd r))"
proof -
  from assms(3) obtain m where m: "mgmtData bm = Some m" and v: "valid_ring m"
    by (auto simp: pinPageCLOCK_def split: option.splits if_splits)
  from assms(1) m have d: "dirty_occupied (frames m)" by (simp add: pool_dirty_occupied_def)
  let ?w1 = "snd (openPageFile sm (pageFile bm) w)"
  show ?thesis
  proof (cases "findPage (frames m) (head m) pn (head m)")
    case (Some i)
    have "dirty_occupied ((frames m)[i := (frames m ! i)
        \<lparr>referenceBit := 1, pageNum := pn, fixCount := c\<rparr>])" for c
      using d assms(2) by (intro dirty_occupied_update) simp_all
    with assms(3) m v Some show ?thesis
      by (auto simp: pinPageCLOCK_def pool_dirty_occupied_def)
  next
    case None
    let ?s = "if occupiedFrameCount m <s numPages bm
              then Continue (fillHead True pn m) ?w1 (head m)
              else clockReplace sm pn m ?w1 (head m)"
    have "dirty_occupied (frames (selection_mgmt ?s))"
      using fillHead_dirty_occupied [OF d assms(2), of True]
        clockReplace_dirty_occupied [OF d assms(2), of sm ?w1 "head m"]
      by (simp add: selection_mgmt_def)
    from selection_dirty_occupied [OF this, of bm page sm True pn] assms(3) m v None
    show ?thesis by (auto simp: pinPageCLOCK_def Let_def)
  qed
qed

lemma pinPage_dirty_occupied:
  assumes "pool_dirty_occupied bm" and "pn \<noteq> NO_PAGE"
    and "pinPage sm bm page pn w = Some r"
  shows "pool_dirty_occupied (fst (snd r))"
proof (cases "strategy bm")
  case RS_FIFO
  with assms(3) obtain r' where "pinPageFIFO sm bm page pn w = Some r'" "snd r = snd r'"
    by (auto simp: pinPage_def)
  with pinPageFIFO_dirty_occupied [OF assms(1,2)] show ?thesis by simp
next
  case RS_LRU
  with assms(3) obtain r' where "pinPageLRU sm bm page pn w = Some r'" "snd r = snd r'"
    by (auto simp: pinPage_def)
  with pinPageLRU_dirty_occupied [OF assms(1,2)] show ?thesis by simp
next
  case RS_CLOCK
  with assms(3) obtain r' where "pinPageCLOCK sm bm page pn w = Some r'" "snd r = snd r'"
    by (auto simp: pinPage_def)
  with pinPageCLOCK_dirty_occupied [OF assms(1,2)] show ?thesis by simp
next
  case RS_OTHER
  with assms show ?thesis by (auto simp: pinPage_def)
qed

lemma markDirty_dirty_occupied:
  assumes "pool_dirty_occupied bm" and "h_pageNum page \<noteq> NO_PAGE"
    and "markDirty bm page = Some r"
  shows "pool_dirty_occupied (snd r)"
proof -
  from assms(3) obtain m where m: "mgmtData bm = Some m" and v: "valid_ring m"
    by (auto simp: markDirty_def split: option.splits if_splits)
  from assms(1) m have d: "dirty_occupied (frames m)" by (simp add: pool_dirty_occupied_def)
  show ?thesis
  proof (cases "findPage (frames m) (head m) (h_pageNum page) (head m)")
    case None
    with assms m v show ?thesis by (auto simp: markDirty_def)
  next
    case (Some i)
    from findPage_Some [OF Some] assms(2) have "pageNum (frames m ! i) \<noteq> NO_PAGE" by simp
    then have "dirty_occupied ((frames m)[i := (frames m ! i)\<lparr>dirtyFlagSignal := 1\<rparr>])"
      using d by (intro dirty_occupied_update) simp_all
    with assms(3) m v Some show ?thesis
      by (auto simp: markDirty_def pool_dirty_occupied_def)
  qed
qed

lemma unpinPage_dirty_occupied:
  assumes "pool_dirty_occupied bm" and "unpinPage bm page = Some r"
  shows "pool_dirty_occupied (snd r)"
proof -
  from assms(2) obtain m where m: "mgmtData bm = Some m" and v: "valid_ring m"
    by (auto simp: unpinPage_def split: option.splits if_splits)
  from assms(1) m have d: "dirty_occupied (frames m)" by (simp add: pool_dirty_occupied_def)
  have "dirty_occupied ((frames m)[i := (frames m ! i)\<lparr>fixCount := c\<rparr>])" for i c
    using d by (intro dirty_occupied_same) simp_all
  with assms m v show ?thesis
    by (auto simp: unpinPage_def pool_dirty_occupied_def split: option.splits)
qed

lemma forceFlushPool_dirty_occupied:
  assumes "pool_dirty_occupied bm" and "forceFlushPool sm bm w = Some r"
  shows "pool_dirty_occupied (fst (snd r))"
proof -
  from assms(2) obtain m where m: "mgmtData bm = Some m"
    by (auto simp: forceFlushPool_def split: option.splits)
  from assms(1) m have d: "dirty_occupied (frames m)" by (simp add: pool_dirty_occupied_def)
  from flushLoop_dirty_occupied [OF d, of sm "head m" "getNumWriteIO m"
      "snd (openPageFile sm (pageFile bm) w)" "head m"] assms m
  show ?thesis
    by (auto simp: forceFlushPool_def pool_dirty_occupied_def split: if_splits prod.splits)
qed

lemma run_dirty_occupied:
  assumes "run sm cs s = Some s'" and "\<forall>c\<in>set cs. page_given c"
    and "pool_dirty_occupied (fst s)"
  shows "pool_dirty_occupied (fst s')"
  using assms
proof (induction sm cs s rule: run.induct)
  case (1 sm s)
  then show ?case by simp
next
  case (2 sm p cs bm page w)
  from "2.prems"(1) obtain r where r: "pinPage sm bm page p w = Some r"
    and rest: "run sm cs (snd r) = Some s'"
    by (auto split: option.splits)
  from pinPage_dirty_occupied [OF _ _ r] "2.prems"(2,3)
  have "pool_dirty_occupied (fst (snd r))" by simp
  with "2.IH" [of r "fst r" "snd r" "fst (snd r)" "snd (snd r)" "fst (snd (snd r))" "snd (snd (snd r))"]
    r rest "2.prems"(2) show ?case by simp
next
  case (3 sm p cs bm page w)
  from "3.prems"(1) obtain r where r: "unpinPage bm (page\<lparr>h_pageNum := p\<rparr>) = Some r"
    and rest: "run sm cs (snd r, page, w) = Some s'"
    by (auto split: option.splits)
  from unpinPage_dirty_occupied [OF _ r] "3.prems"(3)
  have "pool_dirty_occupied (snd r)" by simp
  with "3.IH" [of r "fst r" "snd r"] r rest "3.prems"(2) show ?case by simp
next
  case (4 sm p cs bm page w)
  from "4.prems"(1) obtain r where r: "markDirty bm (page\<lparr>h_pageNum := p\<rparr>) = Some r"
    and rest: "run sm cs (snd r, page, w) = Some s'"
    by (auto split: option.splits)
  from markDirty_dirty_occupied [OF _ _ r] "4.prems"(2,3)
  have "pool_dirty_occupied (snd r)" by simp
  with "4.IH" [of r "fst r" "snd r"] r rest "4.prems"(2) show ?case by simp
next
  case (5 sm cs bm page w)
  from "5.prems"(1) obtain r where r: "forceFlushPool sm bm w = Some r"
    and rest: "run sm cs (fst (snd r), page, snd (snd r)) = Some s'"
    by (auto split: option.splits)
  from forceFlushPool_dirty_occupied [OF _ r] "5.prems"(3)
  have "pool_dirty_occupied (fst (snd r))" by simp
  with "5.IH" [of r "fst r" "snd r" "fst (snd r)" "snd (snd r)"] r rest "5.prems"(2)
  show ?case by simp
qed

lemma createFrames_clean:
  "\<forall>f\<in>set (frames m). dirtyFlagSignal f = 0 \<Longrightarrow>
     \<forall>f\<in>set (frames (createFrames PAGE_SIZE n m)). dirtyFlagSignal f = 0"
proof (induction n arbitrary: m)
  case 0
  then show ?case by simp
next
  case (Suc n)
  have "\<forall>f\<in>set (frames (createPageFrame PAGE_SIZE m)). dirtyFlagSignal f = 0"
    using Suc.prems by (auto simp: createPageFrame_def newFrame_def)
  from Suc.IH [OF this] show ?case by simp
qed

lemma initBufferPool_dirty_occupied:
  "pool_dirty_occupied bm \<Longrightarrow>
     pool_dirty_occupied (fst (snd (initBufferPool sm PAGE_SIZE bm name n strat w)))"
proof -
  assume a: "pool_dirty_occupied bm"
  let ?m0 = "\<lparr>occupiedFrameCount = 0, frames = [], head = 0, tail = 0, start = 0,
                  getNumReadIO = 0, getNumWriteIO = 0\<rparr>"
  have "\<forall>f\<in>set (frames (createFrames PAGE_SIZE (nat (sint n)) ?m0)). dirtyFlagSignal f = 0"
    by (rule createFrames_clean) simp
  then have "dirty_occupied (frames (createFrames PAGE_SIZE (nat (sint n)) ?m0))"
    by (auto simp: dirty_occupied_def)
  with a show ?thesis
    by (simp add: initBufferPool_def Let_def pool_dirty_occupied_def split: prod.splits)
qed

section \<open>Claims\<close>

text \<open>
  C10. On every pool whose pointers are valid, \<open>pinPage\<close> returns, and it returns \<open>RC_OK\<close>
  whatever the pin routine of the strategy returned: the pool, the handle and the world are
  the ones the routine left, and its return code (read failed, write failed, or \<open>RC_OK\<close>
  after no victim was found) is dropped.
\<close>

theorem pinPage_always_OK:
  assumes "mgmtData bm = Some m" and "valid_ring m"
  shows "\<exists>r. pinPage sm bm page pn w = Some (RC_OK, r) \<and>
           (strategy bm = RS_FIFO \<longrightarrow> (\<exists>rc. pinPageFIFO sm bm page pn w = Some (rc, r))) \<and>
           (strategy bm = RS_LRU \<longrightarrow> (\<exists>rc. pinPageLRU sm bm page pn w = Some (rc, r))) \<and>
           (strategy bm = RS_CLOCK \<longrightarrow> (\<exists>rc. pinPageCLOCK sm bm page pn w = Some (rc, r)))"
proof (cases "strategy bm")
  case RS_FIFO
  from pinPageFIFO_defined [OF assms, of sm page pn w] obtain rc r
    where "pinPageFIFO sm bm page pn w = Some (rc, r)" by blast
  with RS_FIFO show ?thesis by (cases r) (simp add: pinPage_def)
next
  case RS_LRU
  from pinPageLRU_defined [OF assms, of sm page pn w] obtain rc r
    where "pinPageLRU sm bm page pn w = Some (rc, r)" by blast
  with RS_LRU show ?thesis by (cases r) (simp add: pinPage_def)
next
  case RS_CLOCK
  from pinPageCLOCK_defined [OF assms, of sm page pn w] obtain rc r
    where "pinPageCLOCK sm bm page pn w = Some (rc, r)" by blast
  with RS_CLOCK show ?thesis by (cases r) (simp add: pinPage_def)
next
  case RS_OTHER
  then show ?thesis by (simp add: pinPage_def)
qed

text \<open>
  The witness: a FIFO pool of one frame whose page file was deleted. \<open>pinPageFIFO\<close>
  returns \<open>RC_READ_NON_EXISTING_PAGE\<close> for page 1, and \<open>pinPage\<close> returns \<open>RC_OK\<close>
  with the same pool, handle and world.
\<close>

theorem pinPage_always_OK_witness:
  "\<exists>r. pinPage (disk_mgr 2) (pool_after [] 1 RS_FIFO) page0 1 disk_gone = Some (RC_OK, r) \<and>
        pinPageFIFO (disk_mgr 2) (pool_after [] 1 RS_FIFO) page0 1 disk_gone
          = Some (RC_READ_NON_EXISTING_PAGE, r)"
proof -
  have a: "mgmtData (pool_after [] 1 RS_FIFO) = Some (mgmt_of (pool_after [] 1 RS_FIFO))"
    by code_simp
  have b: "valid_ring (mgmt_of (pool_after [] 1 RS_FIFO))"
    by code_simp
  have c: "strategy (pool_after [] 1 RS_FIFO) = RS_FIFO"
    by code_simp
  have d: "map_option fst (pinPageFIFO (disk_mgr 2) (pool_after [] 1 RS_FIFO) page0 1 disk_gone)
             = Some RC_READ_NON_EXISTING_PAGE"
    by code_simp
  from pinPage_always_OK [OF a b, of "disk_mgr 2" page0 1 disk_gone] c obtain r rc where
    r: "pinPage (disk_mgr 2) (pool_after [] 1 RS_FIFO) page0 1 disk_gone = Some (RC_OK, r)"
       "pinPageFIFO (disk_mgr 2) (pool_after [] 1 RS_FIFO) page0 1 disk_gone = Some (rc, r)"
    by auto
  from r(2) d have "rc = RC_READ_NON_EXISTING_PAGE" by simp
  with r show ?thesis by blast
qed

text \<open>
  C8. A pin of a page that some frame holds, under FIFO, LRU or CLOCK: \<open>pinPage\<close> returns
  \<open>RC_OK\<close>, the handle is the page number and the buffer of a frame \<open>f\<close> that holds the
  page, the fix count of \<open>f\<close> is one more (in 32-bit arithmetic), its page number, dirty
  flag and buffer are as before, and the two I/O counters are as before.
\<close>

theorem pinPage_hit:
  assumes m: "mgmtData bm = Some m" and v: "valid_ring m"
    and k: "k < length (frames m)" and pk: "pageNum (frames m ! k) = pn"
    and st: "strategy bm \<noteq> RS_OTHER"
  shows "\<exists>f bm' m' w'.
           pinPage sm bm page pn w = Some (RC_OK, bm', \<lparr>h_pageNum = pn, h_data = Some f\<rparr>, w') \<and>
           mgmtData bm' = Some m' \<and>
           f < length (frames m) \<and> pageNum (frames m ! f) = pn \<and>
           length (frames m') = length (frames m) \<and>
           pageNum (frames m' ! f) = pn \<and>
           fixCount (frames m' ! f) = fixCount (frames m ! f) + 1 \<and>
           dirtyFlagSignal (frames m' ! f) = dirtyFlagSignal (frames m ! f) \<and>
           data (frames m' ! f) = data (frames m ! f) \<and>
           getNumReadIO m' = getNumReadIO m \<and>
           getNumWriteIO m' = getNumWriteIO m"
proof -
  from v have h: "head m < length (frames m)" by (simp add: valid_ring_def)
  from findPage_complete [OF h k pk] obtain f where
    f: "findPage (frames m) (head m) pn (head m) = Some f" "f < length (frames m)"
       "pageNum (frames m ! f) = pn" by blast
  have pg: "page\<lparr>h_pageNum := pn, h_data := Some f\<rparr> = \<lparr>h_pageNum = pn, h_data = Some f\<rparr>"
    by (cases page) simp
  show ?thesis
  proof (cases "strategy bm")
    case RS_FIFO
    with m v f pg show ?thesis
      by (intro exI [of _ f]) (simp add: pinPage_def pinPageFIFO_def)
  next
    case RS_LRU
    with m v f pg show ?thesis
      by (intro exI [of _ f]) (simp add: pinPage_def pinPageLRU_def)
  next
    case RS_CLOCK
    with m v f pg show ?thesis
      by (intro exI [of _ f]) (simp add: pinPage_def pinPageCLOCK_def)
  next
    case RS_OTHER
    with st show ?thesis by simp
  qed
qed

theorem pinPage_hit_witness:
  "\<exists>f bm' m' w'.
     pinPage (disk_mgr 2) (pool_after [Pin 1, Unpin 1, Pin 2] 3 RS_LRU) page0 1
         (disk_after [Pin 1, Unpin 1, Pin 2] 3 RS_LRU)
       = Some (RC_OK, bm', \<lparr>h_pageNum = 1, h_data = Some f\<rparr>, w') \<and>
     mgmtData bm' = Some m' \<and>
     f < length (frames (mgmt_of (pool_after [Pin 1, Unpin 1, Pin 2] 3 RS_LRU))) \<and>
     pageNum (frames (mgmt_of (pool_after [Pin 1, Unpin 1, Pin 2] 3 RS_LRU)) ! f) = 1 \<and>
     length (frames m') = length (frames (mgmt_of (pool_after [Pin 1, Unpin 1, Pin 2] 3 RS_LRU))) \<and>
     pageNum (frames m' ! f) = 1 \<and>
     fixCount (frames m' ! f)
       = fixCount (frames (mgmt_of (pool_after [Pin 1, Unpin 1, Pin 2] 3 RS_LRU)) ! f) + 1 \<and>
     dirtyFlagSignal (frames m' ! f)
       = dirtyFlagSignal (frames (mgmt_of (pool_after [Pin 1, Unpin 1, Pin 2] 3 RS_LRU)) ! f) \<and>
     data (frames m' ! f) = data (frames (mgmt_of (pool_after [Pin 1, Unpin 1, Pin 2] 3 RS_LRU)) ! f) \<and>
     getNumReadIO m' = getNumReadIO (mgmt_of (pool_after [Pin 1, Unpin 1, Pin 2] 3 RS_LRU)) \<and>
     getNumWriteIO m' = getNumWriteIO (mgmt_of (pool_after [Pin 1, Unpin 1, Pin 2] 3 RS_LRU))"
proof -
  let ?bm = "pool_after [Pin 1, Unpin 1, Pin 2] 3 RS_LRU"
  have a: "mgmtData ?bm = Some (mgmt_of ?bm)" by code_simp
  have b: "valid_ring (mgmt_of ?bm)" by code_simp
  have c: "0 < length (frames (mgmt_of ?bm))" by code_simp
  have d: "pageNum (frames (mgmt_of ?bm) ! 0) = 1" by code_simp
  have e: "strategy ?bm \<noteq> RS_OTHER" by code_simp
  from pinPage_hit [OF a b c d e] show ?thesis .
qed

text \<open>
  C4, as the code has it. \<open>unpinPage\<close> returns \<open>RC_OK\<close> and has no check of the fix
  count: when a frame holds the page of the handle, the fix count of such a frame is one less
  (in 32-bit arithmetic, so \<open>0\<close> becomes \<open>-1\<close>) and nothing else changes.
\<close>

theorem unpinPage_decrements:
  assumes m: "mgmtData bm = Some m" and v: "valid_ring m"
    and k: "k < length (frames m)" and pk: "pageNum (frames m ! k) = h_pageNum page"
  shows "\<exists>f. f < length (frames m) \<and> pageNum (frames m ! f) = h_pageNum page \<and>
           unpinPage bm page =
             Some (RC_OK, bm\<lparr>mgmtData := Some (m\<lparr>frames := (frames m)
               [f := (frames m ! f)\<lparr>fixCount := fixCount (frames m ! f) - 1\<rparr>]\<rparr>)\<rparr>)"
proof -
  from v have h: "head m < length (frames m)" by (simp add: valid_ring_def)
  from findPage_complete [OF h k pk] obtain f where
    f: "findPage (frames m) (head m) (h_pageNum page) (head m) = Some f" "f < length (frames m)"
       "pageNum (frames m ! f) = h_pageNum page" by blast
  with m v show ?thesis
    by (auto simp: unpinPage_def)
qed

theorem unpinPage_decrements_witness:
  "\<exists>f. f < length (frames (mgmt_of (pool_after [Pin 1] 2 RS_FIFO))) \<and>
       pageNum (frames (mgmt_of (pool_after [Pin 1] 2 RS_FIFO)) ! f)
         = h_pageNum \<lparr>h_pageNum = 1, h_data = Some 0\<rparr> \<and>
       unpinPage (pool_after [Pin 1] 2 RS_FIFO) \<lparr>h_pageNum = 1, h_data = Some 0\<rparr> =
         Some (RC_OK, (pool_after [Pin 1] 2 RS_FIFO)\<lparr>mgmtData :=
           Some ((mgmt_of (pool_after [Pin 1] 2 RS_FIFO))\<lparr>frames :=
             (frames (mgmt_of (pool_after [Pin 1] 2 RS_FIFO)))
               [f := (frames (mgmt_of (pool_after [Pin 1] 2 RS_FIFO)) ! f)
                  \<lparr>fixCount := fixCount (frames (mgmt_of (pool_after [Pin 1] 2 RS_FIFO)) ! f) - 1\<rparr>]\<rparr>)\<rparr>)"
proof -
  let ?bm = "pool_after [Pin 1] 2 RS_FIFO"
  have a: "mgmtData ?bm = Some (mgmt_of ?bm)" by code_simp
  have b: "valid_ring (mgmt_of ?bm)" by code_simp
  have c: "0 < length (frames (mgmt_of ?bm))" by code_simp
  have d: "pageNum (frames (mgmt_of ?bm) ! 0) = h_pageNum \<lparr>h_pageNum = 1, h_data = Some 0\<rparr>"
    by code_simp
  from unpinPage_decrements [OF a b c d] show ?thesis .
qed

text \<open>
  C4 as stated fails. After \<open>pin 1, unpin 1\<close> the frame of page 1 has fix count 0; a second
  \<open>unpinPage\<close> returns \<open>RC_OK\<close>, not an underflow error, and leaves the fix count at
  \<open>-1\<close>. \<open>unpinPage\<close> of page 5, which no frame holds, returns \<open>RC_OK\<close> too.
\<close>

theorem unpinPage_no_error_counterexample:
  "getFrameContents (pool_after [Pin 1, Unpin 1] 1 RS_FIFO) = Some [1] \<and>
   getFixCounts (pool_after [Pin 1, Unpin 1] 1 RS_FIFO) = Some [0] \<and>
   rc_of (unpinPage (pool_after [Pin 1, Unpin 1] 1 RS_FIFO) \<lparr>h_pageNum = 1, h_data = Some 0\<rparr>)
     = Some RC_OK \<and>
   Option.bind (map_option snd (unpinPage (pool_after [Pin 1, Unpin 1] 1 RS_FIFO)
     \<lparr>h_pageNum = 1, h_data = Some 0\<rparr>)) getFixCounts = Some [- 1] \<and>
   unpinPage (pool_after [Pin 1, Unpin 1] 1 RS_FIFO) \<lparr>h_pageNum = 5, h_data = None\<rparr>
     = Some (RC_OK, pool_after [Pin 1, Unpin 1] 1 RS_FIFO)"
  by code_simp

text \<open>
  C5, as the code has it. \<open>shutdownBufferPool\<close> does not look at the fix counts. On a pool
  with frames it runs \<open>forceFlushPool\<close>, which returns \<open>RC_OK\<close>, \<open>RC_FILE_NOT_FOUND\<close>
  or \<open>RC_WRITE_FAILED\<close>; after \<open>RC_OK\<close> the pool is released and \<open>RC_OK\<close> is returned,
  after an error the error is returned and the pool is kept as \<open>forceFlushPool\<close> left it.
\<close>

theorem shutdown_after_flush:
  assumes m: "mgmtData bm = Some m" and v: "valid_ring m"
  shows "\<exists>rc bm1 w1.
           forceFlushPool sm bm w = Some (rc, bm1, w1) \<and>
           (rc = RC_OK \<or> rc = RC_FILE_NOT_FOUND \<or> rc = RC_WRITE_FAILED) \<and>
           shutdownBufferPool sm bm w =
             Some (if rc = RC_OK
                   then (RC_OK, bm1\<lparr>numPages := 0, mgmtData := None, pageFile := None\<rparr>, w1)
                   else (rc, bm1, w1))"
proof -
  from v have ne: "frames m \<noteq> []" by (auto simp: valid_ring_def)
  from m v have "forceFlushPool sm bm w \<noteq> None"
    by (simp add: forceFlushPool_def split: prod.splits)
  then obtain x where x: "forceFlushPool sm bm w = Some x" by blast
  obtain rc bm1 w1 where r: "x = (rc, bm1, w1)" by (cases x)
  have "rc = RC_OK \<or> rc = RC_FILE_NOT_FOUND \<or> rc = RC_WRITE_FAILED"
    using x r m v
      flushLoop_rc [of sm "head m" "frames m" "getNumWriteIO m"
        "snd (openPageFile sm (pageFile bm) w)" "head m"]
    by (auto simp: forceFlushPool_def split: if_splits prod.splits)
  with x r m ne show ?thesis
    by (simp add: shutdownBufferPool_def)
qed

text \<open>
  The witness, and C5 as stated failing: the only frame of the pool is pinned and dirty;
  \<open>shutdownBufferPool\<close> returns \<open>RC_OK\<close> and releases the pool, and block 1 of the page
  file is as it was.
\<close>

theorem shutdown_after_flush_witness:
  "\<exists>rc bm1 w1.
     forceFlushPool (disk_mgr 2) (pool_after [Pin 1, Dirty 1] 1 RS_FIFO)
         (disk_after [Pin 1, Dirty 1] 1 RS_FIFO) = Some (rc, bm1, w1) \<and>
     (rc = RC_OK \<or> rc = RC_FILE_NOT_FOUND \<or> rc = RC_WRITE_FAILED) \<and>
     shutdownBufferPool (disk_mgr 2) (pool_after [Pin 1, Dirty 1] 1 RS_FIFO)
         (disk_after [Pin 1, Dirty 1] 1 RS_FIFO) =
       Some (if rc = RC_OK
             then (RC_OK, bm1\<lparr>numPages := 0, mgmtData := None, pageFile := None\<rparr>, w1)
             else (rc, bm1, w1))"
proof -
  let ?bm = "pool_after [Pin 1, Dirty 1] 1 RS_FIFO"
  have a: "mgmtData ?bm = Some (mgmt_of ?bm)" by code_simp
  have b: "valid_ring (mgmt_of ?bm)" by code_simp
  from shutdown_after_flush [OF a b] show ?thesis .
qed

theorem shutdown_pinned_counterexample:
  "getFixCounts (pool_after [Pin 1, Dirty 1] 1 RS_FIFO) = Some [1] \<and>
   getDirtyFlags (pool_after [Pin 1, Dirty 1] 1 RS_FIFO) = Some [True] \<and>
   rc_of (shutdownBufferPool (disk_mgr 2) (pool_after [Pin 1, Dirty 1] 1 RS_FIFO)
     (disk_after [Pin 1, Dirty 1] 1 RS_FIFO)) = Some RC_OK \<and>
   mgmtData (pool_of (shutdownBufferPool (disk_mgr 2) (pool_after [Pin 1, Dirty 1] 1 RS_FIFO)
     (disk_after [Pin 1, Dirty 1] 1 RS_FIFO))) = None"
  by code_simp

text \<open>
  C3, as the code has it, for the three pin routines. A pin of a page that no frame holds, in
  which a frame is chosen (\<open>occupiedFrameCount < numPages\<close>, or a frame that the replacement
  loop scans is not in use) and the routine reaches the read with \<open>frame = c\<close>, and whose
  \<open>readBlock\<close> fails there: the routine of the strategy returns
  \<open>RC_READ_NON_EXISTING_PAGE\<close>, the handle is as before and the read counter is not
  incremented. The frame \<open>c\<close> is not left empty: it holds the requested page with its fix
  count one more than before (it is the frame at \<open>head\<close> while frames are free), and a
  lookup of the page finds a frame.
\<close>

theorem pin_read_failed:
  assumes m: "mgmtData bm = Some m" and v: "valid_ring m"
    and st: "strategy bm \<noteq> RS_OTHER"
    and miss: "\<forall>k<length (frames m). pageNum (frames m ! k) \<noteq> pn"
    and chosen: "occupiedFrameCount m <s numPages bm \<or>
                 (\<exists>k. scanned bm m k \<and> fixCount (frames m ! k) = 0)"
    and sel: "selectFrame sm bm m pn (snd (openPageFile sm (pageFile bm) w)) = Continue m1 w2 c"
    and fail: "fst (readBlock sm pn (data (frames m1 ! c))
                 (snd (ensureCapacity sm (pn + 1) w2))) \<noteq> RC_OK"
  shows "\<exists>bm' m' w'.
           (strategy bm = RS_FIFO \<longrightarrow>
              pinPageFIFO sm bm page pn w = Some (RC_READ_NON_EXISTING_PAGE, bm', page, w')) \<and>
           (strategy bm = RS_LRU \<longrightarrow>
              pinPageLRU sm bm page pn w = Some (RC_READ_NON_EXISTING_PAGE, bm', page, w')) \<and>
           (strategy bm = RS_CLOCK \<longrightarrow>
              pinPageCLOCK sm bm page pn w = Some (RC_READ_NON_EXISTING_PAGE, bm', page, w')) \<and>
           mgmtData bm' = Some m' \<and>
           getNumReadIO m' = getNumReadIO m \<and>
           length (frames m') = length (frames m) \<and>
           c < length (frames m) \<and>
           (occupiedFrameCount m <s numPages bm \<longrightarrow> c = head m) \<and>
           pageNum (frames m' ! c) = pn \<and>
           fixCount (frames m' ! c) = fixCount (frames m ! c) + 1 \<and>
           findPage (frames m') (head m') pn (head m') \<noteq> None"
proof -
  let ?w1 = "snd (openPageFile sm (pageFile bm) w)"
  let ?rd = "readBlock sm pn (data (frames m1 ! c)) (snd (ensureCapacity sm (pn + 1) w2))"
  let ?m' = "m1\<lparr>frames := (frames m1)[c := (frames m1 ! c)\<lparr>data := fst (snd ?rd)\<rparr>]\<rparr>"
  let ?bm' = "bm\<lparr>mgmtData := Some ?m'\<rparr>"
  from v have h: "head m < length (frames m)" by (simp add: valid_ring_def)
  have nf: "findPage (frames m) (head m) pn (head m) = None"
  proof (cases "findPage (frames m) (head m) pn (head m)")
    case (Some f)
    from findPage_Some [OF Some] miss show ?thesis by blast
  qed simp
  from selectFrame_chosen [OF v st sel chosen] have
    c: "c < length (frames m)" and l: "length (frames m1) = length (frames m)" and
    h1: "head m1 < length (frames m)" and rd: "getNumReadIO m1 = getNumReadIO m" and
    pc: "pageNum (frames m1 ! c) = pn" and
    fc: "fixCount (frames m1 ! c) = fixCount (frames m ! c) + 1" and
    hd: "occupiedFrameCount m <s numPages bm \<longrightarrow> c = head m"
    by simp_all
  have lp: "loadPage sm cf pn bm m1 w2 page c =
      (RC_READ_NON_EXISTING_PAGE, ?bm', page,
       if cf then snd (closePageFile sm (snd (snd ?rd))) else snd (snd ?rd))" for cf
  proof -
    obtain rc buf w3 where r: "?rd = (rc, buf, w3)" by (cases ?rd)
    with fail have "rc \<noteq> RC_OK" by simp
    with r show ?thesis by (simp add: loadPage_def Let_def)
  qed
  have pk: "pageNum (frames ?m' ! c) = pn" using c l pc by simp
  have "\<exists>f. findPage (frames ?m') (head ?m') pn (head ?m') = Some f \<and> f < length (frames ?m')
          \<and> pageNum (frames ?m' ! f) = pn"
    by (rule findPage_complete [where k = c]) (use c l h1 pk in simp_all)
  then have fp: "findPage (frames ?m') (head ?m') pn (head ?m') \<noteq> None" by auto
  have props: "mgmtData ?bm' = Some ?m' \<and> getNumReadIO ?m' = getNumReadIO m \<and>
      length (frames ?m') = length (frames m) \<and> c < length (frames m) \<and>
      (occupiedFrameCount m <s numPages bm \<longrightarrow> c = head m) \<and>
      pageNum (frames ?m' ! c) = pn \<and>
      fixCount (frames ?m' ! c) = fixCount (frames m ! c) + 1 \<and>
      findPage (frames ?m') (head ?m') pn (head ?m') \<noteq> None"
    using c l rd pc fc hd fp by simp
  show ?thesis
  proof (cases "strategy bm")
    case RS_FIFO
    with sel have "(if occupiedFrameCount m <s numPages bm
                    then Continue (fillHead False pn m) ?w1 (head m)
                    else fifoReplace sm pn m ?w1 (tail m)) = Continue m1 w2 c"
      by (simp add: selectFrame_def)
    with m v nf lp [of True] have
      "pinPageFIFO sm bm page pn w = Some (RC_READ_NON_EXISTING_PAGE, ?bm', page,
         snd (closePageFile sm (snd (snd ?rd))))"
      by (simp add: pinPageFIFO_def Let_def)
    with RS_FIFO props pc fc l c show ?thesis
      by (intro exI [of _ ?bm'] exI [of _ ?m'] exI [of _ "snd (closePageFile sm (snd (snd ?rd)))"])
         simp
  next
    case RS_LRU
    with sel have "(if occupiedFrameCount m <s numPages bm
                    then Continue (fillHead False pn m) ?w1 (head m)
                    else lruReplace sm pn m ?w1 (tail m)) = Continue m1 w2 c"
      by (simp add: selectFrame_def)
    with m v nf lp [of False] have
      "pinPageLRU sm bm page pn w = Some (RC_READ_NON_EXISTING_PAGE, ?bm', page, snd (snd ?rd))"
      by (simp add: pinPageLRU_def Let_def)
    with RS_LRU props pc fc l c show ?thesis
      by (intro exI [of _ ?bm'] exI [of _ ?m'] exI [of _ "snd (snd ?rd)"]) simp
  next
    case RS_CLOCK
    with sel have "(if occupiedFrameCount m <s numPages bm
                    then Continue (fillHead True pn m) ?w1 (head m)
                    else clockReplace sm pn m ?w1 (head m)) = Continue m1 w2 c"
      by (simp add: selectFrame_def)
    with m v nf lp [of True] have
      "pinPageCLOCK sm bm page pn w = Some (RC_READ_NON_EXISTING_PAGE, ?bm', page,
         snd (closePageFile sm (snd (snd ?rd))))"
      by (simp add: pinPageCLOCK_def Let_def)
    with RS_CLOCK props pc fc l c show ?thesis
      by (intro exI [of _ ?bm'] exI [of _ ?m'] exI [of _ "snd (closePageFile sm (snd (snd ?rd)))"])
         simp
  next
    case RS_OTHER
    with st show ?thesis by simp
  qed
qed

text \<open>
  The witness: pools of two frames that are full after \<open>pin 1, pin 2, unpin 2\<close>, under
  FIFO, LRU and CLOCK, and a page file that was deleted. The pin of page 3 goes through the
  replacement loop: FIFO and CLOCK take frame 1, LRU takes frame 0.
\<close>

theorem pin_read_failed_witness:
  "(\<exists>bm' m' w'.
      (strategy (pool_after [Pin 1, Pin 2, Unpin 2] 2 RS_FIFO) = RS_FIFO \<longrightarrow>
         pinPageFIFO (disk_mgr 2) (pool_after [Pin 1, Pin 2, Unpin 2] 2 RS_FIFO) page0 3 disk_gone
           = Some (RC_READ_NON_EXISTING_PAGE, bm', page0, w')) \<and>
      (strategy (pool_after [Pin 1, Pin 2, Unpin 2] 2 RS_FIFO) = RS_LRU \<longrightarrow>
         pinPageLRU (disk_mgr 2) (pool_after [Pin 1, Pin 2, Unpin 2] 2 RS_FIFO) page0 3 disk_gone
           = Some (RC_READ_NON_EXISTING_PAGE, bm', page0, w')) \<and>
      (strategy (pool_after [Pin 1, Pin 2, Unpin 2] 2 RS_FIFO) = RS_CLOCK \<longrightarrow>
         pinPageCLOCK (disk_mgr 2) (pool_after [Pin 1, Pin 2, Unpin 2] 2 RS_FIFO) page0 3 disk_gone
           = Some (RC_READ_NON_EXISTING_PAGE, bm', page0, w')) \<and>
      mgmtData bm' = Some m' \<and>
      getNumReadIO m' = getNumReadIO (mgmt_of (pool_after [Pin 1, Pin 2, Unpin 2] 2 RS_FIFO)) \<and>
      length (frames m') = length (frames (mgmt_of (pool_after [Pin 1, Pin 2, Unpin 2] 2 RS_FIFO))) \<and>
      1 < length (frames (mgmt_of (pool_after [Pin 1, Pin 2, Unpin 2] 2 RS_FIFO))) \<and>
      (occupiedFrameCount (mgmt_of (pool_after [Pin 1, Pin 2, Unpin 2] 2 RS_FIFO)) <s numPages (pool_after [Pin 1, Pin 2, Unpin 2] 2 RS_FIFO) \<longrightarrow> 1 = head (mgmt_of (pool_after [Pin 1, Pin 2, Unpin 2] 2 RS_FIFO))) \<and>
      pageNum (frames m' ! 1) = 3 \<and>
      fixCount (frames m' ! 1) = fixCount (frames (mgmt_of (pool_after [Pin 1, Pin 2, Unpin 2] 2 RS_FIFO)) ! 1) + 1 \<and>
      findPage (frames m') (head m') 3 (head m') \<noteq> None) \<and>
   (\<exists>bm' m' w'.
      (strategy (pool_after [Pin 1, Pin 2, Unpin 2] 2 RS_LRU) = RS_FIFO \<longrightarrow>
         pinPageFIFO (disk_mgr 2) (pool_after [Pin 1, Pin 2, Unpin 2] 2 RS_LRU) page0 3 disk_gone
           = Some (RC_READ_NON_EXISTING_PAGE, bm', page0, w')) \<and>
      (strategy (pool_after [Pin 1, Pin 2, Unpin 2] 2 RS_LRU) = RS_LRU \<longrightarrow>
         pinPageLRU (disk_mgr 2) (pool_after [Pin 1, Pin 2, Unpin 2] 2 RS_LRU) page0 3 disk_gone
           = Some (RC_READ_NON_EXISTING_PAGE, bm', page0, w')) \<and>
      (strategy (pool_after [Pin 1, Pin 2, Unpin 2] 2 RS_LRU) = RS_CLOCK \<longrightarrow>
         pinPageCLOCK (disk_mgr 2) (pool_after [Pin 1, Pin 2, Unpin 2] 2 RS_LRU) page0 3 disk_gone
           = Some (RC_READ_NON_EXISTING_PAGE, bm', page0, w')) \<and>
      mgmtData bm' = Some m' \<and>
      getNumReadIO m' = getNumReadIO (mgmt_of (pool_after [Pin 1, Pin 2, Unpin 2] 2 RS_LRU)) \<and>
      length (frames m') = length (frames (mgmt_of (pool_after [Pin 1, Pin 2, Unpin 2] 2 RS_LRU))) \<and>
      0 < length (frames (mgmt_of (pool_after [Pin 1, Pin 2, Unpin 2] 2 RS_LRU))) \<and>
      (occupiedFrameCount (mgmt_of (pool_after [Pin 1, Pin 2, Unpin 2] 2 RS_LRU)) <s numPages (pool_after [Pin 1, Pin 2, Unpin 2] 2 RS_LRU) \<longrightarrow> 0 = head (mgmt_of (pool_after [Pin 1, Pin 2, Unpin 2] 2 RS_LRU))) \<and>
      pageNum (frames m' ! 0) = 3 \<and>
      fixCount (frames m' ! 0) = fixCount (frames (mgmt_of (pool_after [Pin 1, Pin 2, Unpin 2] 2 RS_LRU)) ! 0) + 1 \<and>
      findPage (frames m') (head m') 3 (head m') \<noteq> None) \<and>
   (\<exists>bm' m' w'.
      (strategy (pool_after [Pin 1, Pin 2, Unpin 2] 2 RS_CLOCK) = RS_FIFO \<longrightarrow>
         pinPageFIFO (disk_mgr 2) (pool_after [Pin 1, Pin 2, Unpin 2] 2 RS_CLOCK) page0 3 disk_gone
           = Some (RC_READ_NON_EXISTING_PAGE, bm', page0, w')) \<and>
      (strategy (pool_after [Pin 1, Pin 2, Unpin 2] 2 RS_CLOCK) = RS_LRU \<longrightarrow>
         pinPageLRU (disk_mgr 2) (pool_after [Pin 1, Pin 2, Unpin 2] 2 RS_CLOCK) page0 3 disk_gone
           = Some (RC_READ_NON_EXISTING_PAGE, bm', page0, w')) \<and>
      (strategy (pool_after [Pin 1, Pin 2, Unpin 2] 2 RS_CLOCK) = RS_CLOCK \<longrightarrow>
         pinPageCLOCK (disk_mgr 2) (pool_after [Pin 1, Pin 2, Unpin 2] 2 RS_CLOCK) page0 3 disk_gone
           = Some (RC_READ_NON_EXISTING_PAGE, bm', page0, w')) \<and>
      mgmtData bm' = Some m' \<and>
      getNumReadIO m' = getNumReadIO (mgmt_of (pool_after [Pin 1, Pin 2, Unpin 2] 2 RS_CLOCK)) \<and>
      length (frames m') = length (frames (mgmt_of (pool_after [Pin 1, Pin 2, Unpin 2] 2 RS_CLOCK))) \<and>
      1 < length (frames (mgmt_of (pool_after [Pin 1, Pin 2, Unpin 2] 2 RS_CLOCK))) \<and>
      (occupiedFrameCount (mgmt_of (pool_after [Pin 1, Pin 2, Unpin 2] 2 RS_CLOCK)) <s numPages (pool_after [Pin 1, Pin 2, Unpin 2] 2 RS_CLOCK) \<longrightarrow> 1 = head (mgmt_of (pool_after [Pin 1, Pin 2, Unpin 2] 2 RS_CLOCK))) \<and>
      pageNum (frames m' ! 1) = 3 \<and>
      fixCount (frames m' ! 1) = fixCount (frames (mgmt_of (pool_after [Pin 1, Pin 2, Unpin 2] 2 RS_CLOCK)) ! 1) + 1 \<and>
      findPage (frames m') (head m') 3 (head m') \<noteq> None)"
proof -
  have fifo: "(\<exists>bm' m' w'.
          (strategy (pool_after [Pin 1, Pin 2, Unpin 2] 2 RS_FIFO) = RS_FIFO \<longrightarrow>
             pinPageFIFO (disk_mgr 2) (pool_after [Pin 1, Pin 2, Unpin 2] 2 RS_FIFO) page0 3 disk_gone
               = Some (RC_READ_NON_EXISTING_PAGE, bm', page0, w')) \<and>
          (strategy (pool_after [Pin 1, Pin 2, Unpin 2] 2 RS_FIFO) = RS_LRU \<longrightarrow>
             pinPageLRU (disk_mgr 2) (pool_after [Pin 1, Pin 2, Unpin 2] 2 RS_FIFO) page0 3 disk_gone
               = Some (RC_READ_NON_EXISTING_PAGE, bm', page0, w')) \<and>
          (strategy (pool_after [Pin 1, Pin 2, Unpin 2] 2 RS_FIFO) = RS_CLOCK \<longrightarrow>
             pinPageCLOCK (disk_mgr 2) (pool_after [Pin 1, Pin 2, Unpin 2] 2 RS_FIFO) page0 3 disk_gone
               = Some (RC_READ_NON_EXISTING_PAGE, bm', page0, w')) \<and>
          mgmtData bm' = Some m' \<and>
          getNumReadIO m' = getNumReadIO (mgmt_of (pool_after [Pin 1, Pin 2, Unpin 2] 2 RS_FIFO)) \<and>
          length (frames m') = length (frames (mgmt_of (pool_after [Pin 1, Pin 2, Unpin 2] 2 RS_FIFO))) \<and>
          1 < length (frames (mgmt_of (pool_after [Pin 1, Pin 2, Unpin 2] 2 RS_FIFO))) \<and>
          (occupiedFrameCount (mgmt_of (pool_after [Pin 1, Pin 2, Unpin 2] 2 RS_FIFO)) <s numPages (pool_after [Pin 1, Pin 2, Unpin 2] 2 RS_FIFO) \<longrightarrow> 1 = head (mgmt_of (pool_after [Pin 1, Pin 2, Unpin 2] 2 RS_FIFO))) \<and>
          pageNum (frames m' ! 1) = 3 \<and>
          fixCount (frames m' ! 1) = fixCount (frames (mgmt_of (pool_after [Pin 1, Pin 2, Unpin 2] 2 RS_FIFO)) ! 1) + 1 \<and>
          findPage (frames m') (head m') 3 (head m') \<noteq> None)"
  proof -
    let ?P = "pool_after [Pin 1, Pin 2, Unpin 2] 2 RS_FIFO"
    let ?M = "mgmt_of ?P"
    let ?sel = "selectFrame (disk_mgr 2) ?P ?M 3 (snd (openPageFile (disk_mgr 2) (pageFile ?P) disk_gone))"
    have a: "mgmtData ?P = Some ?M" by code_simp
    have b: "valid_ring ?M" by code_simp
    have st: "strategy ?P \<noteq> RS_OTHER" by code_simp
    have "\<forall>f\<in>set (frames ?M). pageNum f \<noteq> 3" by code_simp
    then have miss: "\<forall>k<length (frames ?M). pageNum (frames ?M ! k) \<noteq> 3" by simp
    have "scanned ?P ?M 1 \<and> fixCount (frames ?M ! 1) = 0" by code_simp
    then have chosen: "occupiedFrameCount ?M <s numPages ?P \<or>
        (\<exists>k. scanned ?P ?M k \<and> fixCount (frames ?M ! k) = 0)" by blast
    have sel: "?sel = Continue (selection_mgmt ?sel) disk_gone 1" by code_simp
    have fail: "fst (readBlock (disk_mgr 2) 3 (data (frames (selection_mgmt ?sel) ! 1))
        (snd (ensureCapacity (disk_mgr 2) (3 + 1) disk_gone))) \<noteq> RC_OK" by code_simp
    from pin_read_failed [OF a b st miss chosen sel fail, of page0] show ?thesis .
  qed
  have lru: "(\<exists>bm' m' w'.
          (strategy (pool_after [Pin 1, Pin 2, Unpin 2] 2 RS_LRU) = RS_FIFO \<longrightarrow>
             pinPageFIFO (disk_mgr 2) (pool_after [Pin 1, Pin 2, Unpin 2] 2 RS_LRU) page0 3 disk_gone
               = Some (RC_READ_NON_EXISTING_PAGE, bm', page0, w')) \<and>
          (strategy (pool_after [Pin 1, Pin 2, Unpin 2] 2 RS_LRU) = RS_LRU \<longrightarrow>
             pinPageLRU (disk_mgr 2) (pool_after [Pin 1, Pin 2, Unpin 2] 2 RS_LRU) page0 3 disk_gone
               = Some (RC_READ_NON_EXISTING_PAGE, bm', page0, w')) \<and>
          (strategy (pool_after [Pin 1, Pin 2, Unpin 2] 2 RS_LRU) = RS_CLOCK \<longrightarrow>
             pinPageCLOCK (disk_mgr 2) (pool_after [Pin 1, Pin 2, Unpin 2] 2 RS_LRU) page0 3 disk_gone
               = Some (RC_READ_NON_EXISTING_PAGE, bm', page0, w')) \<and>
          mgmtData bm' = Some m' \<and>
          getNumReadIO m' = getNumReadIO (mgmt_of (pool_after [Pin 1, Pin 2, Unpin 2] 2 RS_LRU)) \<and>
          length (frames m') = length (frames (mgmt_of (pool_after [Pin 1, Pin 2, Unpin 2] 2 RS_LRU))) \<and>
          0 < length (frames (mgmt_of (pool_after [Pin 1, Pin 2, Unpin 2] 2 RS_LRU))) \<and>
          (occupiedFrameCount (mgmt_of (pool_after [Pin 1, Pin 2, Unpin 2] 2 RS_LRU)) <s numPages (pool_after [Pin 1, Pin 2, Unpin 2] 2 RS_LRU) \<longrightarrow> 0 = head (mgmt_of (pool_after [Pin 1, Pin 2, Unpin 2] 2 RS_LRU))) \<and>
          pageNum (frames m' ! 0) = 3 \<and>
          fixCount (frames m' ! 0) = fixCount (frames (mgmt_of (pool_after [Pin 1, Pin 2, Unpin 2] 2 RS_LRU)) ! 0) + 1 \<and>
          findPage (frames m') (head m') 3 (head m') \<noteq> None)"
  proof -
    let ?P = "pool_after [Pin 1, Pin 2, Unpin 2] 2 RS_LRU"
    let ?M = "mgmt_of ?P"
    let ?sel = "selectFrame (disk_mgr 2) ?P ?M 3 (snd (openPageFile (disk_mgr 2) (pageFile ?P) disk_gone))"
    have a: "mgmtData ?P = Some ?M" by code_simp
    have b: "valid_ring ?M" by code_simp
    have st: "strategy ?P \<noteq> RS_OTHER" by code_simp
    have "\<forall>f\<in>set (frames ?M). pageNum f \<noteq> 3" by code_simp
    then have miss: "\<forall>k<length (frames ?M). pageNum (frames ?M ! k) \<noteq> 3" by simp
    have "scanned ?P ?M 1 \<and> fixCount (frames ?M ! 1) = 0" by code_simp
    then have chosen: "occupiedFrameCount ?M <s numPages ?P \<or>
        (\<exists>k. scanned ?P ?M k \<and> fixCount (frames ?M ! k) = 0)" by blast
    have sel: "?sel = Continue (selection_mgmt ?sel) disk_gone 0" by code_simp
    have fail: "fst (readBlock (disk_mgr 2) 3 (data (frames (selection_mgmt ?sel) ! 0))
        (snd (ensureCapacity (disk_mgr 2) (3 + 1) disk_gone))) \<noteq> RC_OK" by code_simp
    from pin_read_failed [OF a b st miss chosen sel fail, of page0] show ?thesis .
  qed
  have clock: "(\<exists>bm' m' w'.
          (strategy (pool_after [Pin 1, Pin 2, Unpin 2] 2 RS_CLOCK) = RS_FIFO \<longrightarrow>
             pinPageFIFO (disk_mgr 2) (pool_after [Pin 1, Pin 2, Unpin 2] 2 RS_CLOCK) page0 3 disk_gone
               = Some (RC_READ_NON_EXISTING_PAGE, bm', page0, w')) \<and>
          (strategy (pool_after [Pin 1, Pin 2, Unpin 2] 2 RS_CLOCK) = RS_LRU \<longrightarrow>
             pinPageLRU (disk_mgr 2) (pool_after [Pin 1, Pin 2, Unpin 2] 2 RS_CLOCK) page0 3 disk_gone
               = Some (RC_READ_NON_EXISTING_PAGE, bm', page0, w')) \<and>
          (strategy (pool_after [Pin 1, Pin 2, Unpin 2] 2 RS_CLOCK) = RS_CLOCK \<longrightarrow>
             pinPageCLOCK (disk_mgr 2) (pool_after [Pin 1, Pin 2, Unpin 2] 2 RS_CLOCK) page0 3 disk_gone
               = Some (RC_READ_NON_EXISTING_PAGE, bm', page0, w')) \<and>
          mgmtData bm' = Some m' \<and>
          getNumReadIO m' = getNumReadIO (mgmt_of (pool_after [Pin 1, Pin 2, Unpin 2] 2 RS_CLOCK)) \<and>
          length (frames m') = length (frames (mgmt_of (pool_after [Pin 1, Pin 2, Unpin 2] 2 RS_CLOCK))) \<and>
          1 < length (frames (mgmt_of (pool_after [Pin 1, Pin 2, Unpin 2] 2 RS_CLOCK))) \<and>
          (occupiedFrameCount (mgmt_of (pool_after [Pin 1, Pin 2, Unpin 2] 2 RS_CLOCK)) <s numPages (pool_after [Pin 1, Pin 2, Unpin 2] 2 RS_CLOCK) \<longrightarrow> 1 = head (mgmt_of (pool_after [Pin 1, Pin 2, Unpin 2] 2 RS_CLOCK))) \<and>
          pageNum (frames m' ! 1) = 3 \<and>
          fixCount (frames m' ! 1) = fixCount (frames (mgmt_of (pool_after [Pin 1, Pin 2, Unpin 2] 2 RS_CLOCK)) ! 1) + 1 \<and>
          findPage (frames m') (head m') 3 (head m') \<noteq> None)"
  proof -
    let ?P = "pool_after [Pin 1, Pin 2, Unpin 2] 2 RS_CLOCK"
    let ?M = "mgmt_of ?P"
    let ?sel = "selectFrame (disk_mgr 2) ?P ?M 3 (snd (openPageFile (disk_mgr 2) (pageFile ?P) disk_gone))"
    have a: "mgmtData ?P = Some ?M" by code_simp
    have b: "valid_ring ?M" by code_simp
    have st: "strategy ?P \<noteq> RS_OTHER" by code_simp
    have "\<forall>f\<in>set (frames ?M). pageNum f \<noteq> 3" by code_simp
    then have miss: "\<forall>k<length (frames ?M). pageNum (frames ?M ! k) \<noteq> 3" by simp
    have "scanned ?P ?M 1 \<and> fixCount (frames ?M ! 1) = 0" by code_simp
    then have chosen: "occupiedFrameCount ?M <s numPages ?P \<or>
        (\<exists>k. scanned ?P ?M k \<and> fixCount (frames ?M ! k) = 0)" by blast
    have sel: "?sel = Continue (selection_mgmt ?sel) disk_gone 1" by code_simp
    have fail: "fst (readBlock (disk_mgr 2) 3 (data (frames (selection_mgmt ?sel) ! 1))
        (snd (ensureCapacity (disk_mgr 2) (3 + 1) disk_gone))) \<noteq> RC_OK" by code_simp
    from pin_read_failed [OF a b st miss chosen sel fail, of page0] show ?thesis .
  qed
  from fifo lru clock show ?thesis by (intro conjI)
qed

text \<open>
  C3 as stated fails: a FIFO pool of one empty frame whose page file was deleted.
  \<open>pinPageFIFO\<close> of page 1 returns \<open>RC_READ_NON_EXISTING_PAGE\<close> and leaves the read
  counter at 0, but the frame holds page 1 with fix count 1, and a second pin of page 1 is a
  hit: it returns \<open>RC_OK\<close> with the buffer of frame 0, into which nothing was read.
\<close>

theorem pinPageFIFO_read_failed_counterexample:
  "getFrameContents (pool_after [] 1 RS_FIFO) = Some [- 1] \<and>
   rc_of (pinPageFIFO (disk_mgr 2) (pool_after [] 1 RS_FIFO) page0 1 disk_gone)
     = Some RC_READ_NON_EXISTING_PAGE \<and>
   getFrameContents (pool_of (pinPageFIFO (disk_mgr 2) (pool_after [] 1 RS_FIFO) page0 1 disk_gone))
     = Some [1] \<and>
   getFixCounts (pool_of (pinPageFIFO (disk_mgr 2) (pool_after [] 1 RS_FIFO) page0 1 disk_gone))
     = Some [1] \<and>
   numReadIO (pool_of (pinPageFIFO (disk_mgr 2) (pool_after [] 1 RS_FIFO) page0 1 disk_gone))
     = Some 0 \<and>
   map_option (fst \<circ> snd \<circ> snd)
     (pinPageFIFO (disk_mgr 2)
        (pool_of (pinPageFIFO (disk_mgr 2) (pool_after [] 1 RS_FIFO) page0 1 disk_gone))
        page0 1 disk_gone)
     = Some \<lparr>h_pageNum = 1, h_data = Some 0\<rparr> \<and>
   rc_of (pinPageFIFO (disk_mgr 2)
        (pool_of (pinPageFIFO (disk_mgr 2) (pool_after [] 1 RS_FIFO) page0 1 disk_gone))
        page0 1 disk_gone)
     = Some RC_OK"
  by code_simp

text \<open>
  C1 fails on the code. LRU, two frames: after \<open>pin 1, pin 2, unpin 2\<close> frame 0 holds
  page 1 with fix count 1 and frame 1 holds page 2 with fix count 0; \<open>pin 3\<close> binds frame 0,
  the pinned one, to page 3. FIFO, one frame: after \<open>pin 1\<close> the frame is pinned and its
  buffer holds block 1; \<open>pin 2\<close> finds no victim and reads block 2 into that buffer.
\<close>

theorem pinned_frame_rebound:
  "getFrameContents (pool_after [Pin 1, Pin 2, Unpin 2] 2 RS_LRU) = Some [1, 2] \<and>
   getFixCounts (pool_after [Pin 1, Pin 2, Unpin 2] 2 RS_LRU) = Some [1, 0] \<and>
   getFrameContents (pool_after [Pin 1, Pin 2, Unpin 2, Pin 3] 2 RS_LRU) = Some [3, 2] \<and>
   getFixCounts (pool_after [Pin 1, Pin 2, Unpin 2, Pin 3] 2 RS_LRU) = Some [2, 0] \<and>
   buffers (pool_after [Pin 1, Pin 2, Unpin 2, Pin 3] 2 RS_LRU) = [''p3'', ''p2''] \<and>
   getFrameContents (pool_after [Pin 1] 1 RS_FIFO) = Some [1] \<and>
   getFixCounts (pool_after [Pin 1] 1 RS_FIFO) = Some [1] \<and>
   buffers (pool_after [Pin 1] 1 RS_FIFO) = [''p1''] \<and>
   getFrameContents (pool_after [Pin 1, Pin 2] 1 RS_FIFO) = Some [1] \<and>
   getFixCounts (pool_after [Pin 1, Pin 2] 1 RS_FIFO) = Some [1] \<and>
   buffers (pool_after [Pin 1, Pin 2] 1 RS_FIFO) = [''p2'']"
  by code_simp

text \<open>
  C2 fails on the code. FIFO, two frames, both pinned after \<open>pin 1, pin 2\<close>; page 3 is in
  no frame. \<open>pinPageFIFO\<close> of page 3 returns \<open>RC_OK\<close>, with the handle of page 3 on the
  buffer of frame 0; the read counter goes from 2 to 3 and the buffer of frame 0, which still
  holds page 1 with fix count 1, now has block 3.
\<close>

theorem pin_all_pinned_no_error:
  "getFrameContents (pool_after [Pin 1, Pin 2] 2 RS_FIFO) = Some [1, 2] \<and>
   getFixCounts (pool_after [Pin 1, Pin 2] 2 RS_FIFO) = Some [1, 1] \<and>
   numReadIO (pool_after [Pin 1, Pin 2] 2 RS_FIFO) = Some 2 \<and>
   buffers (pool_after [Pin 1, Pin 2] 2 RS_FIFO) = [''p1'', ''p2''] \<and>
   rc_of (pinPageFIFO (disk_mgr 2) (pool_after [Pin 1, Pin 2] 2 RS_FIFO) page0 3
            (disk_after [Pin 1, Pin 2] 2 RS_FIFO)) = Some RC_OK \<and>
   map_option (fst \<circ> snd \<circ> snd)
     (pinPageFIFO (disk_mgr 2) (pool_after [Pin 1, Pin 2] 2 RS_FIFO) page0 3
        (disk_after [Pin 1, Pin 2] 2 RS_FIFO)) = Some \<lparr>h_pageNum = 3, h_data = Some 0\<rparr> \<and>
   getFrameContents (pool_after [Pin 1, Pin 2, Pin 3] 2 RS_FIFO) = Some [1, 2] \<and>
   getFixCounts (pool_after [Pin 1, Pin 2, Pin 3] 2 RS_FIFO) = Some [1, 1] \<and>
   numReadIO (pool_after [Pin 1, Pin 2, Pin 3] 2 RS_FIFO) = Some 3 \<and>
   buffers (pool_after [Pin 1, Pin 2, Pin 3] 2 RS_FIFO) = [''p3'', ''p2'']"
  by code_simp

text \<open>
  C7. The scenario holds: CLOCK, three frames, after pin and unpin of pages 1, 2, 3 every
  reference bit is set; \<open>pin 4\<close> clears the three bits, takes frame 0 and sets its bit again,
  and the frames hold 4, 2, 3 after 4 reads. The rule of victim selection fails on the code:
  CLOCK, two frames, after \<open>pin 1, pin 2, unpin 2, pin 3, unpin 3\<close> frame 0 holds page 1
  with fix count 1 and reference bit 0, frame 1 holds page 3 with fix count 0 and reference
  bit 1; \<open>pin 4\<close> takes frame 0, which is pinned, and not frame 1.
\<close>

theorem clock_scenario_and_pinned_victim:
  "getFrameContents (pool_after [Pin 1, Unpin 1, Pin 2, Unpin 2, Pin 3, Unpin 3] 3 RS_CLOCK)
     = Some [1, 2, 3] \<and>
   referenceBits (pool_after [Pin 1, Unpin 1, Pin 2, Unpin 2, Pin 3, Unpin 3] 3 RS_CLOCK)
     = [1, 1, 1] \<and>
   getFrameContents (pool_after [Pin 1, Unpin 1, Pin 2, Unpin 2, Pin 3, Unpin 3, Pin 4] 3 RS_CLOCK)
     = Some [4, 2, 3] \<and>
   referenceBits (pool_after [Pin 1, Unpin 1, Pin 2, Unpin 2, Pin 3, Unpin 3, Pin 4] 3 RS_CLOCK)
     = [1, 0, 0] \<and>
   numReadIO (pool_after [Pin 1, Unpin 1, Pin 2, Unpin 2, Pin 3, Unpin 3, Pin 4] 3 RS_CLOCK)
     = Some 4 \<and>
   getFrameContents (pool_after [Pin 1, Pin 2, Unpin 2, Pin 3, Unpin 3] 2 RS_CLOCK) = Some [1, 3] \<and>
   getFixCounts (pool_after [Pin 1, Pin 2, Unpin 2, Pin 3, Unpin 3] 2 RS_CLOCK) = Some [1, 0] \<and>
   referenceBits (pool_after [Pin 1, Pin 2, Unpin 2, Pin 3, Unpin 3] 2 RS_CLOCK) = [0, 1] \<and>
   getFrameContents (pool_after [Pin 1, Pin 2, Unpin 2, Pin 3, Unpin 3, Pin 4] 2 RS_CLOCK)
     = Some [4, 3] \<and>
   getFixCounts (pool_after [Pin 1, Pin 2, Unpin 2, Pin 3, Unpin 3, Pin 4] 2 RS_CLOCK)
     = Some [2, 0]"
  by code_simp

text \<open>
  C9 fails on the code under LRU. Three frames, after \<open>pin 1, unpin 1\<close> and a second
  \<open>pin 1, unpin 1\<close> (a hit) frame 0 holds page 1 and two frames are empty; \<open>pin 2\<close> puts
  page 2 into frame 0 and not into frame 1. Under FIFO the same calls fill frame 1.
\<close>

theorem lru_fill_after_hit:
  "getFrameContents (pool_after [Pin 1, Unpin 1, Pin 1, Unpin 1] 3 RS_LRU) = Some [1, - 1, - 1] \<and>
   getFrameContents (pool_after [Pin 1, Unpin 1, Pin 1, Unpin 1, Pin 2] 3 RS_LRU)
     = Some [2, - 1, - 1] \<and>
   getFrameContents (pool_after [Pin 1, Unpin 1, Pin 1, Unpin 1, Pin 2] 3 RS_FIFO)
     = Some [1, 2, - 1] \<and>
   getFrameContents (pool_after [Pin 1, Unpin 1, Pin 1, Unpin 1, Pin 2] 3 RS_CLOCK)
     = Some [1, 2, - 1]"
  by code_simp

text \<open>
  C6. On a pool with valid pointers whose page file opens and in which every dirty frame holds
  a page (\<open>dirty_occupied\<close>, which holds in every state reached from a new pool by calls
  that pass page numbers, see \<open>run_dirty_occupied\<close>), \<open>forceFlushPool\<close> does what the
  specification says (\<open>flushSpec\<close> along the
  ring, which visits every frame once): the frames that are occupied, unpinned and dirty are
  written, each has its dirty flag cleared and counts one write; a pinned dirty frame is passed
  over; a failed write returns \<open>RC_WRITE_FAILED\<close> at once, with the frames flushed before
  it clean. When it returns \<open>RC_OK\<close>, exactly the frames to be flushed have changed, to
  clean, and the write counter has grown by their number (in 32-bit arithmetic).
\<close>

theorem forceFlushPool_flushes:
  assumes m: "mgmtData bm = Some m" and v: "valid_ring m"
    and op: "fst (openPageFile sm (pageFile bm) w) = RC_OK"
    and inv: "\<forall>f\<in>set (frames m). dirtyFlagSignal f = 1 \<longrightarrow> pageNum f \<noteq> NO_PAGE"
  shows "forceFlushPool sm bm w =
           (case flushSpec sm (ringOrder (length (frames m)) (head m)) (frames m)
                   (getNumWriteIO m) (snd (openPageFile sm (pageFile bm) w)) of
              (rc, fs', nw', w') \<Rightarrow>
                Some (rc, bm\<lparr>mgmtData := Some (m\<lparr>frames := fs', getNumWriteIO := nw'\<rparr>)\<rparr>,
                      snd (closePageFile sm w'))) \<and>
         distinct (ringOrder (length (frames m)) (head m)) \<and>
         set (ringOrder (length (frames m)) (head m)) = {..<length (frames m)} \<and>
         (\<forall>bm' w'. forceFlushPool sm bm w = Some (RC_OK, bm', w') \<longrightarrow>
            mgmtData bm' = Some (m\<lparr>
              frames := map (\<lambda>f. if flushable f then f\<lparr>dirtyFlagSignal := 0\<rparr> else f) (frames m),
              getNumWriteIO := getNumWriteIO m + of_nat (length (filter flushable (frames m)))\<rparr>))"
proof -
  let ?w1 = "snd (openPageFile sm (pageFile bm) w)"
  let ?js = "ringOrder (length (frames m)) (head m)"
  from v have h: "head m < length (frames m)" by (simp add: valid_ring_def)
  then have z: "0 < length (frames m)" by (cases "frames m") auto
  from inv have inv': "\<forall>j<length (frames m). dirtyFlagSignal (frames m ! j) = 1
      \<longrightarrow> pageNum (frames m ! j) \<noteq> NO_PAGE"
    by simp
  have "head m = (head m + 0) mod length (frames m)" using h by simp
  from flushLoop_flushSpec [OF h z this inv', of sm "getNumWriteIO m" ?w1]
  have ref: "forceFlushPool sm bm w =
           (case flushSpec sm ?js (frames m) (getNumWriteIO m) ?w1 of
              (rc, fs', nw', w') \<Rightarrow>
                Some (rc, bm\<lparr>mgmtData := Some (m\<lparr>frames := fs', getNumWriteIO := nw'\<rparr>)\<rparr>,
                      snd (closePageFile sm w')))"
    using m v op by (simp add: forceFlushPool_def ringOrder_def split: prod.splits)
  from ringOrder_perm [OF h] have d: "distinct ?js" and st: "set ?js = {..<length (frames m)}"
    by simp_all
  have ok: "mgmtData bm' = Some (m\<lparr>
              frames := map (\<lambda>f. if flushable f then f\<lparr>dirtyFlagSignal := 0\<rparr> else f) (frames m),
              getNumWriteIO := getNumWriteIO m + of_nat (length (filter flushable (frames m)))\<rparr>)"
    if r: "forceFlushPool sm bm w = Some (RC_OK, bm', w')" for bm' w'
  proof -
    obtain rc fs' nw' w2 where fsp: "flushSpec sm ?js (frames m) (getNumWriteIO m) ?w1 = (rc, fs', nw', w2)"
      by (cases "flushSpec sm ?js (frames m) (getNumWriteIO m) ?w1")
    with ref r have rc: "rc = RC_OK"
      and bm': "bm' = bm\<lparr>mgmtData := Some (m\<lparr>frames := fs', getNumWriteIO := nw'\<rparr>)\<rparr>"
      by simp_all
    from st have sub: "set ?js \<subseteq> {..<length (frames m)}" by simp
    from flushSpec_OK [OF d sub fsp [unfolded rc]] have
      l: "length fs' = length (frames m)" and
      a: "\<forall>j<length (frames m). fs' ! j = (if j \<in> set ?js \<and> flushable (frames m ! j)
            then (frames m ! j)\<lparr>dirtyFlagSignal := 0\<rparr> else frames m ! j)" and
      n: "nw' = getNumWriteIO m + of_nat (length (filter (\<lambda>j. flushable (frames m ! j)) ?js))"
      by simp_all
    have "fs' = map (\<lambda>f. if flushable f then f\<lparr>dirtyFlagSignal := 0\<rparr> else f) (frames m)"
      using l a st by (intro nth_equalityI) auto
    moreover have "nw' = getNumWriteIO m + of_nat (length (filter flushable (frames m)))"
      using n count_flushable [OF d st] by simp
    ultimately show ?thesis using bm' by simp
  qed
  from ref d st ok show ?thesis by blast
qed

text \<open>
  The witness: FIFO, three frames, after \<open>pin 1, markDirty 1, pin 2, markDirty 2, unpin 2\<close>:
  page 1 is dirty and pinned, page 2 is dirty and unpinned, the third frame is empty.
\<close>

theorem forceFlushPool_flushes_witness:
  "forceFlushPool (disk_mgr 2) (pool_after [Pin 1, Dirty 1, Pin 2, Dirty 2, Unpin 2] 3 RS_FIFO)
       (disk_after [Pin 1, Dirty 1, Pin 2, Dirty 2, Unpin 2] 3 RS_FIFO) =
     (case flushSpec (disk_mgr 2)
             (ringOrder (length (frames (mgmt_of (pool_after [Pin 1, Dirty 1, Pin 2, Dirty 2, Unpin 2] 3 RS_FIFO))))
                (head (mgmt_of (pool_after [Pin 1, Dirty 1, Pin 2, Dirty 2, Unpin 2] 3 RS_FIFO))))
             (frames (mgmt_of (pool_after [Pin 1, Dirty 1, Pin 2, Dirty 2, Unpin 2] 3 RS_FIFO)))
             (getNumWriteIO (mgmt_of (pool_after [Pin 1, Dirty 1, Pin 2, Dirty 2, Unpin 2] 3 RS_FIFO)))
             (snd (openPageFile (disk_mgr 2)
                (pageFile (pool_after [Pin 1, Dirty 1, Pin 2, Dirty 2, Unpin 2] 3 RS_FIFO))
                (disk_after [Pin 1, Dirty 1, Pin 2, Dirty 2, Unpin 2] 3 RS_FIFO))) of
        (rc, fs', nw', w') \<Rightarrow>
          Some (rc, (pool_after [Pin 1, Dirty 1, Pin 2, Dirty 2, Unpin 2] 3 RS_FIFO)\<lparr>mgmtData :=
                  Some ((mgmt_of (pool_after [Pin 1, Dirty 1, Pin 2, Dirty 2, Unpin 2] 3 RS_FIFO))
                    \<lparr>frames := fs', getNumWriteIO := nw'\<rparr>)\<rparr>,
                snd (closePageFile (disk_mgr 2) w'))) \<and>
   rc_of (forceFlushPool (disk_mgr 2) (pool_after [Pin 1, Dirty 1, Pin 2, Dirty 2, Unpin 2] 3 RS_FIFO)
       (disk_after [Pin 1, Dirty 1, Pin 2, Dirty 2, Unpin 2] 3 RS_FIFO)) = Some RC_OK \<and>
   mgmtData (pool_of (forceFlushPool (disk_mgr 2)
       (pool_after [Pin 1, Dirty 1, Pin 2, Dirty 2, Unpin 2] 3 RS_FIFO)
       (disk_after [Pin 1, Dirty 1, Pin 2, Dirty 2, Unpin 2] 3 RS_FIFO))) =
     Some ((mgmt_of (pool_after [Pin 1, Dirty 1, Pin 2, Dirty 2, Unpin 2] 3 RS_FIFO))\<lparr>
       frames := map (\<lambda>f. if flushable f then f\<lparr>dirtyFlagSignal := 0\<rparr> else f)
         (frames (mgmt_of (pool_after [Pin 1, Dirty 1, Pin 2, Dirty 2, Unpin 2] 3 RS_FIFO))),
       getNumWriteIO := getNumWriteIO (mgmt_of (pool_after [Pin 1, Dirty 1, Pin 2, Dirty 2, Unpin 2] 3 RS_FIFO))
         + of_nat (length (filter flushable
             (frames (mgmt_of (pool_after [Pin 1, Dirty 1, Pin 2, Dirty 2, Unpin 2] 3 RS_FIFO)))))\<rparr>) \<and>
   getDirtyFlags (pool_after [Pin 1, Dirty 1, Pin 2, Dirty 2, Unpin 2] 3 RS_FIFO)
     = Some [True, True, False] \<and>
   getFixCounts (pool_after [Pin 1, Dirty 1, Pin 2, Dirty 2, Unpin 2] 3 RS_FIFO)
     = Some [1, 0, 0] \<and>
   getDirtyFlags (pool_of (forceFlushPool (disk_mgr 2)
       (pool_after [Pin 1, Dirty 1, Pin 2, Dirty 2, Unpin 2] 3 RS_FIFO)
       (disk_after [Pin 1, Dirty 1, Pin 2, Dirty 2, Unpin 2] 3 RS_FIFO)))
     = Some [True, False, False] \<and>
   numWriteIO (pool_of (forceFlushPool (disk_mgr 2)
       (pool_after [Pin 1, Dirty 1, Pin 2, Dirty 2, Unpin 2] 3 RS_FIFO)
       (disk_after [Pin 1, Dirty 1, Pin 2, Dirty 2, Unpin 2] 3 RS_FIFO))) = Some 1"
proof -
  let ?bm = "pool_after [Pin 1, Dirty 1, Pin 2, Dirty 2, Unpin 2] 3 RS_FIFO"
  let ?w = "disk_after [Pin 1, Dirty 1, Pin 2, Dirty 2, Unpin 2] 3 RS_FIFO"
  have a: "mgmtData ?bm = Some (mgmt_of ?bm)" by code_simp
  have b: "valid_ring (mgmt_of ?bm)" by code_simp
  have c: "fst (openPageFile (disk_mgr 2) (pageFile ?bm) ?w) = RC_OK" by code_simp
  have d: "\<forall>f\<in>set (frames (mgmt_of ?bm)). dirtyFlagSignal f = 1 \<longrightarrow> pageNum f \<noteq> NO_PAGE"
    by code_simp
  have e: "forceFlushPool (disk_mgr 2) ?bm ?w =
      Some (RC_OK, pool_of (forceFlushPool (disk_mgr 2) ?bm ?w), disk0)"
    by code_simp
  have f: "rc_of (forceFlushPool (disk_mgr 2) ?bm ?w) = Some RC_OK \<and>
      getDirtyFlags ?bm = Some [True, True, False] \<and>
      getFixCounts ?bm = Some [1, 0, 0] \<and>
      getDirtyFlags (pool_of (forceFlushPool (disk_mgr 2) ?bm ?w)) = Some [True, False, False] \<and>
      numWriteIO (pool_of (forceFlushPool (disk_mgr 2) ?bm ?w)) = Some 1"
    by code_simp
  note t = forceFlushPool_flushes [OF a b c d]
  from t have t1: "forceFlushPool (disk_mgr 2) ?bm ?w =
     (case flushSpec (disk_mgr 2)
             (ringOrder (length (frames (mgmt_of ?bm))) (head (mgmt_of ?bm)))
             (frames (mgmt_of ?bm)) (getNumWriteIO (mgmt_of ?bm))
             (snd (openPageFile (disk_mgr 2) (pageFile ?bm) ?w)) of
        (rc, fs', nw', w') \<Rightarrow>
          Some (rc, ?bm\<lparr>mgmtData := Some ((mgmt_of ?bm)\<lparr>frames := fs', getNumWriteIO := nw'\<rparr>)\<rparr>,
                snd (closePageFile (disk_mgr 2) w')))"
    by (rule conjunct1)
  from t e have t2: "mgmtData (pool_of (forceFlushPool (disk_mgr 2) ?bm ?w)) =
     Some ((mgmt_of ?bm)\<lparr>
       frames := map (\<lambda>f. if flushable f then f\<lparr>dirtyFlagSignal := 0\<rparr> else f)
         (frames (mgmt_of ?bm)),
       getNumWriteIO := getNumWriteIO (mgmt_of ?bm)
         + of_nat (length (filter flushable (frames (mgmt_of ?bm))))\<rparr>)"
    by blast
  from t1 t2 f show ?thesis by blast
qed

end
